theory Spec2Isabelle
  imports Main "HOL-Library.Word"
begin

section \<open>The element type, the allocator and the outcome of a call\<close>

text \<open>
  \<^verbatim>\<open>vector.h\<close> is a template over an element type \<open>T\<close>. What the container does with
  \<open>T\<close> is: construct, copy, move, assign and destroy objects, any of which (but the
  destructor) may throw; and it asks \<open>operator new\<close> for raw memory, which may throw
  \<open>std::bad_alloc\<close>. The record \<open>env\<close> collects what the container can observe of \<open>T\<close>
  and of the allocator:
  \<^item> \<open>nothrow_move_constructible\<close>, \<open>copy_constructible\<close>: the two type traits tested by
    \<open>ReplaceOrCopyData\<close>;
  \<^item> \<open>copy_throws x\<close>, \<open>move_throws x\<close>: copy- (move-) constructing from an object of value
    \<open>x\<close> throws; otherwise the new object has value \<open>x\<close>;
  \<^item> \<open>copy_assign_throws x\<close>, \<open>move_assign_throws x\<close>: assigning from an object of value \<open>x\<close>
    throws (the target is then left as it was); otherwise the target has value \<open>x\<close>;
  \<^item> \<open>moved_from x\<close>: the value left in an object of value \<open>x\<close> after it was moved from;
  \<^item> \<open>value_init\<close>: the value of \<open>T()\<close>, or \<open>None\<close> when value-initialisation throws;
  \<^item> \<open>sizeof_T\<close>: \<open>sizeof(T)\<close>, at least \<open>1\<close> for every type;
  \<^item> \<open>new_throws b\<close>: \<open>operator new\<close> throws when asked for \<open>b\<close> bytes.

  A slot of raw memory is either uninitialised (\<open>Raw\<close>) or holds a live object (\<open>Live x\<close>).
  Sizes are \<open>size_t\<close> in the source, \<open>64\<close> bits wide, and \<open>nat\<close> here. The source can wrap
  around in three places: the product \<^verbatim>\<open>n * sizeof(T)\<close> of \<open>Allocate\<close> and the product
  \<^verbatim>\<open>size_ * 2\<close> of \<open>EmplaceBack\<close> and \<open>Emplace\<close>, which are computed on \<open>64\<close>-bit words, and the
  \<^verbatim>\<open>--size_\<close> of \<open>PopBack\<close> on an empty vector, which is modelled as undefined behaviour.
\<close>

datatype 'a slot = Raw | Live 'a

record 'a env =
  nothrow_move_constructible :: bool
  copy_constructible :: bool
  copy_throws :: "'a \<Rightarrow> bool"
  move_throws :: "'a \<Rightarrow> bool"
  copy_assign_throws :: "'a \<Rightarrow> bool"
  move_assign_throws :: "'a \<Rightarrow> bool"
  moved_from :: "'a \<Rightarrow> 'a"
  value_init :: "'a option"
  sizeof_T :: nat
  new_throws :: "nat \<Rightarrow> bool"

datatype exn = bad_alloc | elem_exn

text \<open>
  A call returns a value \<open>r\<close> and leaves the state \<open>s\<close> (\<open>Return r s\<close>), or an exception
  propagates to the caller and leaves the state \<open>s\<close> (\<open>Throw e s\<close>), or its behaviour is
  undefined (an assertion of the source fails, raw memory is read as an object, memory
  outside the block is accessed).
\<close>

datatype ('r, 's) outcome = Return 'r 's | Throw exn 's | Undefined

section \<open>The standard algorithms on uninitialised memory\<close>

text \<open>
  \<open>std::uninitialized_copy_n(first, n, d_first)\<close> and \<open>std::uninitialized_move_n\<close>: construct
  \<open>n\<close> objects at \<open>dst + d\<close> from the objects at \<open>src + i\<close>. When a constructor throws, the
  objects already constructed in the destination are destroyed and the exception is
  rethrown. \<open>thr\<close> says when the constructor throws and \<open>mf\<close> what it leaves in its source
  (the identity for a copy).
\<close>

fun uninitialized_transfer_n ::
  "('a \<Rightarrow> bool) \<Rightarrow> ('a \<Rightarrow> 'a) \<Rightarrow> 'a slot list \<Rightarrow> nat \<Rightarrow> nat \<Rightarrow> 'a slot list \<Rightarrow> nat
     \<Rightarrow> (unit, 'a slot list \<times> 'a slot list) outcome" where
  "uninitialized_transfer_n thr mf src i 0 dst d = Return () (src, dst)"
| "uninitialized_transfer_n thr mf src i (Suc n) dst d =
     (if i < length src \<and> d < length dst then
        (case src ! i of
           Raw \<Rightarrow> Undefined
         | Live x \<Rightarrow>
             if thr x then Throw elem_exn (src, dst)
             else (case uninitialized_transfer_n thr mf (src[i := Live (mf x)]) (Suc i) n
                          (dst[d := Live x]) (Suc d) of
                     Return u s \<Rightarrow> Return u s
                   | Throw e (src', dst') \<Rightarrow> Throw e (src', dst'[d := Raw])
                   | Undefined \<Rightarrow> Undefined))
      else Undefined)"

definition uninitialized_copy_n ::
  "'a env \<Rightarrow> 'a slot list \<Rightarrow> nat \<Rightarrow> nat \<Rightarrow> 'a slot list \<Rightarrow> nat
     \<Rightarrow> (unit, 'a slot list \<times> 'a slot list) outcome" where
  "uninitialized_copy_n E src i n dst d =
     uninitialized_transfer_n (copy_throws E) (\<lambda>x. x) src i n dst d"

definition uninitialized_move_n ::
  "'a env \<Rightarrow> 'a slot list \<Rightarrow> nat \<Rightarrow> nat \<Rightarrow> 'a slot list \<Rightarrow> nat
     \<Rightarrow> (unit, 'a slot list \<times> 'a slot list) outcome" where
  "uninitialized_move_n E src i n dst d =
     uninitialized_transfer_n (move_throws E) (moved_from E) src i n dst d"

text \<open>
  \<open>std::destroy_n(first, n)\<close>: runs the destructor of the \<open>n\<close> objects at \<open>buf + i\<close>.
  Destructors do not throw; destroying what is not an object is undefined (\<open>None\<close>).
\<close>

fun destroy_n :: "'a slot list \<Rightarrow> nat \<Rightarrow> nat \<Rightarrow> 'a slot list option" where
  "destroy_n buf i 0 = Some buf"
| "destroy_n buf i (Suc n) =
     (if i < length buf \<and> buf ! i \<noteq> Raw then destroy_n (buf[i := Raw]) (Suc i) n else None)"

text \<open>
  \<open>std::uninitialized_value_construct_n(first, n)\<close>: value-initialises \<open>n\<close> objects at
  \<open>buf + i\<close>, with the same roll-back as above when \<open>T()\<close> throws.
\<close>

fun uninitialized_value_construct_n ::
  "'a env \<Rightarrow> 'a slot list \<Rightarrow> nat \<Rightarrow> nat \<Rightarrow> (unit, 'a slot list) outcome" where
  "uninitialized_value_construct_n E buf i 0 = Return () buf"
| "uninitialized_value_construct_n E buf i (Suc n) =
     (if i < length buf then
        (case value_init E of
           None \<Rightarrow> Throw elem_exn buf
         | Some x \<Rightarrow>
             (case uninitialized_value_construct_n E (buf[i := Live x]) (Suc i) n of
                Return u b \<Rightarrow> Return u b
              | Throw e b \<Rightarrow> Throw e (b[i := Raw])
              | Undefined \<Rightarrow> Undefined))
      else Undefined)"

text \<open>
  The placement \<open>new (p) T(std::forward<Args>(args)...)\<close> at slot \<open>i\<close>. The constructor call
  is given by what it does: \<open>None\<close> when it throws, \<open>Some x\<close> when it constructs an object of
  value \<open>x\<close>.
\<close>

definition construct_at :: "'a slot list \<Rightarrow> nat \<Rightarrow> 'a option \<Rightarrow> (unit, 'a slot list) outcome" where
  "construct_at buf i arg =
     (if i < length buf then
        (case arg of
           None \<Rightarrow> Throw elem_exn buf
         | Some x \<Rightarrow> Return () (buf[i := Live x]))
      else Undefined)"

text \<open>The constructor calls \<open>T(value)\<close> and \<open>T(std::move(value))\<close>.\<close>

definition copy_of :: "'a env \<Rightarrow> 'a \<Rightarrow> 'a option" where
  "copy_of E x = (if copy_throws E x then None else Some x)"

definition move_of :: "'a env \<Rightarrow> 'a \<Rightarrow> 'a option" where
  "move_of E x = (if move_throws E x then None else Some x)"

section \<open>RawMemory\<close>

text \<open>
  The members \<^verbatim>\<open>buffer_\<close> and \<^verbatim>\<open>capacity_\<close> of \<open>RawMemory\<close> are the fields \<open>rm_buffer\<close> and
  \<open>rm_capacity\<close>, the members \<^verbatim>\<open>data_\<close> and \<^verbatim>\<open>size_\<close> of \<open>Vector\<close> the fields \<open>vec_data\<close> and
  \<open>vec_size\<close> (a name cannot end in an underscore here). The block a \<open>RawMemory\<close> owns
  is the list of its slots; the null pointer is the empty list.
\<close>

record 'a RawMemory =
  rm_buffer :: "'a slot list"
  rm_capacity :: nat

definition RawMemory_default :: "'a RawMemory" where
  "RawMemory_default = \<lparr>rm_buffer = [], rm_capacity = 0\<rparr>"

text \<open>The product of two \<open>size_t\<close> values: it wraps around at \<open>2^64\<close>.\<close>

definition size_t_mult :: "nat \<Rightarrow> nat \<Rightarrow> nat" where
  "size_t_mult a b = unat (word_of_nat a * word_of_nat b :: 64 word)"

text \<open>
  \<^verbatim>\<open>n != 0 ? static_cast<T*>(operator new(n * sizeof(T))) : nullptr\<close>. The product is
  computed in \<open>size_t\<close>: \<open>operator new\<close> is asked for \<open>(n * sizeof(T)) mod 2^64\<close> bytes and, when
  it does not throw, returns a block of that many bytes, which has room for that many
  bytes divided by \<open>sizeof(T)\<close> slots. When the product wraps around, the block is smaller
  than the \<open>n\<close> slots the caller goes on to use. \<open>None\<close> is \<open>std::bad_alloc\<close>.
\<close>

definition Allocate :: "'a env \<Rightarrow> nat \<Rightarrow> 'a slot list option" where
  "Allocate E n =
     (if n \<noteq> 0 then
        (let bytes = size_t_mult n (sizeof_T E) in
         if new_throws E bytes then None else Some (replicate (bytes div sizeof_T E) Raw))
      else Some [])"

text \<open>
  The allocation of a block for \<open>n\<close> elements fails: \<open>operator new\<close> throws, or the byte count
  does not fit \<open>size_t\<close> and the block that comes back has fewer than \<open>n\<close> slots.
\<close>

definition alloc_fails :: "'a env \<Rightarrow> nat \<Rightarrow> bool" where
  "alloc_fails E n = (Allocate E n \<noteq> Some (replicate n Raw))"

text \<open>The byte count of \<open>n\<close> elements fits \<open>size_t\<close>.\<close>

definition fits_size_t :: "'a env \<Rightarrow> nat \<Rightarrow> bool" where
  "fits_size_t E n = (0 < sizeof_T E \<and> n * sizeof_T E < 2 ^ 64)"

definition RawMemory_new :: "'a env \<Rightarrow> nat \<Rightarrow> 'a RawMemory option" where
  "RawMemory_new E n =
     (case Allocate E n of
        None \<Rightarrow> None
      | Some b \<Rightarrow> Some \<lparr>rm_buffer = b, rm_capacity = n\<rparr>)"

definition RawMemory_Swap :: "'a RawMemory \<Rightarrow> 'a RawMemory \<Rightarrow> 'a RawMemory \<times> 'a RawMemory" where
  "RawMemory_Swap this other =
     (\<lparr>rm_buffer = rm_buffer other, rm_capacity = rm_capacity other\<rparr>,
      \<lparr>rm_buffer = rm_buffer this, rm_capacity = rm_capacity this\<rparr>)"

text \<open>\<open>RawMemory(RawMemory&& other)\<close>: the new object starts as the default one and swaps.\<close>

definition RawMemory_move :: "'a RawMemory \<Rightarrow> 'a RawMemory \<times> 'a RawMemory" where
  "RawMemory_move other = RawMemory_Swap RawMemory_default other"

text \<open>\<open>operator=(RawMemory&& other)\<close>: swaps as well.\<close>

definition RawMemory_move_assign :: "'a RawMemory \<Rightarrow> 'a RawMemory \<Rightarrow> 'a RawMemory \<times> 'a RawMemory" where
  "RawMemory_move_assign this other = RawMemory_Swap this other"

section \<open>Vector\<close>

record 'a Vector =
  vec_data :: "'a RawMemory"
  vec_size :: nat

definition Size :: "'a Vector \<Rightarrow> nat" where
  "Size v = vec_size v"

definition Capacity :: "'a Vector \<Rightarrow> nat" where
  "Capacity v = rm_capacity (vec_data v)"

definition Vector_default :: "'a Vector" where
  "Vector_default = \<lparr>vec_data = RawMemory_default, vec_size = 0\<rparr>"

text \<open>\<open>operator[]\<close>: \<open>None\<close> where the source's assertions fail or the slot holds no object.\<close>

definition at :: "'a Vector \<Rightarrow> nat \<Rightarrow> 'a option" where
  "at v index =
     (if index < vec_size v \<and> index < rm_capacity (vec_data v) \<and> index < length (rm_buffer (vec_data v)) then
        (case rm_buffer (vec_data v) ! index of Raw \<Rightarrow> None | Live x \<Rightarrow> Some x)
      else None)"

definition ReplaceOrCopyData ::
  "'a env \<Rightarrow> 'a slot list \<Rightarrow> nat \<Rightarrow> nat \<Rightarrow> 'a slot list \<Rightarrow> nat
     \<Rightarrow> (unit, 'a slot list \<times> 'a slot list) outcome" where
  "ReplaceOrCopyData E old i n new d =
     (case (if nothrow_move_constructible E \<or> \<not> copy_constructible E
            then uninitialized_move_n E old i n new d
            else uninitialized_copy_n E old i n new d) of
        Return u (old', new') \<Rightarrow>
          (case destroy_n old' i n of
             None \<Rightarrow> Undefined
           | Some old'' \<Rightarrow> Return () (old'', new'))
      | Throw e s \<Rightarrow> Throw e s
      | Undefined \<Rightarrow> Undefined)"

text \<open>
  \<open>EmplaceBack\<close> returns a reference to the new element: here the index of its slot in
  the vector's storage as the call leaves it.
\<close>

definition EmplaceBack :: "'a env \<Rightarrow> 'a option \<Rightarrow> 'a Vector \<Rightarrow> (nat, 'a Vector) outcome" where
  "EmplaceBack E arg v =
     (if vec_size v = Capacity v then
        (case RawMemory_new E (if vec_size v = 0 then 1 else size_t_mult (vec_size v) 2) of
           None \<Rightarrow> Throw bad_alloc v
         | Some new_data \<Rightarrow>
             (case construct_at (rm_buffer new_data) (vec_size v) arg of
                Return u nb \<Rightarrow>
                  (case ReplaceOrCopyData E (rm_buffer (vec_data v)) 0 (vec_size v) nb 0 of
                     Return u' (old, new) \<Rightarrow>
                       (let (d, nd) = RawMemory_Swap \<lparr>rm_buffer = old, rm_capacity = rm_capacity (vec_data v)\<rparr>
                                          \<lparr>rm_buffer = new, rm_capacity = rm_capacity new_data\<rparr>
                        in Return (vec_size v) \<lparr>vec_data = d, vec_size = vec_size v + 1\<rparr>)
                   | Throw e (old, new) \<Rightarrow> Throw e \<lparr>vec_data = \<lparr>rm_buffer = old, rm_capacity = rm_capacity (vec_data v)\<rparr>, vec_size = vec_size v\<rparr>
                   | Undefined \<Rightarrow> Undefined)
              | Throw e nb \<Rightarrow> Throw e v
              | Undefined \<Rightarrow> Undefined))
      else
        (if vec_size v \<le> rm_capacity (vec_data v) then
           (case construct_at (rm_buffer (vec_data v)) (vec_size v) arg of
              Return u b \<Rightarrow> Return (vec_size v) \<lparr>vec_data = \<lparr>rm_buffer = b, rm_capacity = rm_capacity (vec_data v)\<rparr>, vec_size = vec_size v + 1\<rparr>
            | Throw e b \<Rightarrow> Throw e v
            | Undefined \<Rightarrow> Undefined)
         else Undefined))"

definition PushBack :: "'a env \<Rightarrow> 'a \<Rightarrow> 'a Vector \<Rightarrow> (unit, 'a Vector) outcome" where
  "PushBack E value v =
     (case EmplaceBack E (copy_of E value) v of
        Return r v' \<Rightarrow> Return () v'
      | Throw e v' \<Rightarrow> Throw e v'
      | Undefined \<Rightarrow> Undefined)"

definition PushBack_move :: "'a env \<Rightarrow> 'a \<Rightarrow> 'a Vector \<Rightarrow> (unit, 'a Vector) outcome" where
  "PushBack_move E value v =
     (case EmplaceBack E (move_of E value) v of
        Return r v' \<Rightarrow> Return () v'
      | Throw e v' \<Rightarrow> Throw e v'
      | Undefined \<Rightarrow> Undefined)"

section \<open>Assigning ranges of live objects\<close>

text \<open>
  The loop of the copy assignment,
  \<^verbatim>\<open>for (size_t i = 0; i < size; ++i) data_[i] = other.data_[i];\<close>
  from index \<open>i\<close> on, with \<open>k\<close> rounds left. An assignment that throws leaves its target as
  it was.
\<close>

fun copy_assign_loop ::
  "'a env \<Rightarrow> 'a slot list \<Rightarrow> 'a slot list \<Rightarrow> nat \<Rightarrow> nat \<Rightarrow> (unit, 'a slot list) outcome" where
  "copy_assign_loop E dst src i 0 = Return () dst"
| "copy_assign_loop E dst src i (Suc k) =
     (if i < length dst \<and> i < length src then
        (case (dst ! i, src ! i) of
           (Live y, Live x) \<Rightarrow>
             if copy_assign_throws E x then Throw elem_exn dst
             else copy_assign_loop E (dst[i := Live x]) src (Suc i) k
         | _ \<Rightarrow> Undefined)
      else Undefined)"

text \<open>
  \<open>std::move_backward(first, last, d_last)\<close> inside one block: move-assigns the objects of
  \<open>[first, last)\<close> to the range that ends at \<open>d_last\<close>, the last one first.
  \<open>move_backward_n\<close> does it for the \<open>n\<close> objects below \<open>last\<close>.
\<close>

fun move_backward_n ::
  "'a env \<Rightarrow> 'a slot list \<Rightarrow> nat \<Rightarrow> nat \<Rightarrow> nat \<Rightarrow> (unit, 'a slot list) outcome" where
  "move_backward_n E buf lst d_last 0 = Return () buf"
| "move_backward_n E buf lst d_last (Suc n) =
     (if 0 < lst \<and> 0 < d_last \<and> lst - 1 < length buf \<and> d_last - 1 < length buf then
        (case (buf ! (lst - 1), buf ! (d_last - 1)) of
           (Live x, Live y) \<Rightarrow>
             if move_assign_throws E x then Throw elem_exn buf
             else move_backward_n E (buf[d_last - 1 := Live x, lst - 1 := Live (moved_from E x)])
                    (lst - 1) (d_last - 1) n
         | _ \<Rightarrow> Undefined)
      else Undefined)"

definition move_backward ::
  "'a env \<Rightarrow> 'a slot list \<Rightarrow> nat \<Rightarrow> nat \<Rightarrow> nat \<Rightarrow> (unit, 'a slot list) outcome" where
  "move_backward E buf first lst d_last =
     (if first \<le> lst then move_backward_n E buf lst d_last (lst - first) else Undefined)"

text \<open>
  \<open>std::move(first, last, d_first)\<close> inside one block: move-assigns the objects of
  \<open>[first, last)\<close> to the range that starts at \<open>d_first\<close>, the first one first.
\<close>

fun move_n ::
  "'a env \<Rightarrow> 'a slot list \<Rightarrow> nat \<Rightarrow> nat \<Rightarrow> nat \<Rightarrow> (unit, 'a slot list) outcome" where
  "move_n E buf first d_first 0 = Return () buf"
| "move_n E buf first d_first (Suc n) =
     (if first < length buf \<and> d_first < length buf then
        (case (buf ! first, buf ! d_first) of
           (Live x, Live y) \<Rightarrow>
             if move_assign_throws E x then Throw elem_exn buf
             else move_n E (buf[d_first := Live x, first := Live (moved_from E x)])
                    (Suc first) (Suc d_first) n
         | _ \<Rightarrow> Undefined)
      else Undefined)"

definition move_range ::
  "'a env \<Rightarrow> 'a slot list \<Rightarrow> nat \<Rightarrow> nat \<Rightarrow> nat \<Rightarrow> (unit, 'a slot list) outcome" where
  "move_range E buf first lst d_first =
     (if first \<le> lst then move_n E buf first d_first (lst - first) else Undefined)"

section \<open>Construction, destruction, swap\<close>

text \<open>\<open>explicit Vector(size_t size)\<close>. A constructor that throws leaves no object.\<close>

definition Vector_sized :: "'a env \<Rightarrow> nat \<Rightarrow> ('a Vector, unit) outcome" where
  "Vector_sized E n =
     (case RawMemory_new E n of
        None \<Rightarrow> Throw bad_alloc ()
      | Some d \<Rightarrow>
          (case uninitialized_value_construct_n E (rm_buffer d) 0 n of
             Return u b \<Rightarrow> Return \<lparr>vec_data = \<lparr>rm_buffer = b, rm_capacity = rm_capacity d\<rparr>, vec_size = n\<rparr> ()
           | Throw e b \<Rightarrow> Throw e ()
           | Undefined \<Rightarrow> Undefined))"

text \<open>\<open>Vector(const Vector& other)\<close>.\<close>

definition Vector_copy :: "'a env \<Rightarrow> 'a Vector \<Rightarrow> ('a Vector, unit) outcome" where
  "Vector_copy E other =
     (case RawMemory_new E (Size other) of
        None \<Rightarrow> Throw bad_alloc ()
      | Some d \<Rightarrow>
          (case uninitialized_copy_n E (rm_buffer (vec_data other)) 0 (vec_size other) (rm_buffer d) 0 of
             Return u (src, dst) \<Rightarrow>
               Return \<lparr>vec_data = \<lparr>rm_buffer = dst, rm_capacity = rm_capacity d\<rparr>, vec_size = vec_size other\<rparr> ()
           | Throw e s \<Rightarrow> Throw e ()
           | Undefined \<Rightarrow> Undefined))"

text \<open>\<open>Vector(Vector&& other) noexcept\<close>: the new vector and what is left of \<open>other\<close>.\<close>

definition Vector_move :: "'a Vector \<Rightarrow> 'a Vector \<times> 'a Vector" where
  "Vector_move other =
     (let (d, od) = RawMemory_move (vec_data other)
      in (\<lparr>vec_data = d, vec_size = vec_size other\<rparr>, \<lparr>vec_data = od, vec_size = 0\<rparr>))"

text \<open>
  \<open>~Vector()\<close>: destroys the first \<open>size_\<close> objects, then the block is released. The result is
  the block as it is released, \<open>None\<close> when the behaviour is undefined.
\<close>

definition Vector_dtor :: "'a Vector \<Rightarrow> 'a slot list option" where
  "Vector_dtor v = destroy_n (rm_buffer (vec_data v)) 0 (vec_size v)"

definition Vector_Swap :: "'a Vector \<Rightarrow> 'a Vector \<Rightarrow> 'a Vector \<times> 'a Vector" where
  "Vector_Swap this other =
     (let (d, od) = RawMemory_Swap (vec_data this) (vec_data other)
      in (\<lparr>vec_data = d, vec_size = vec_size other\<rparr>, \<lparr>vec_data = od, vec_size = vec_size this\<rparr>))"

section \<open>Assignment\<close>

text \<open>
  The body of \<open>operator=(const Vector& other)\<close> under its guard \<open>this != &other\<close>, on the
  two objects.
\<close>

definition copy_assign :: "'a env \<Rightarrow> 'a Vector \<Rightarrow> 'a Vector \<Rightarrow> (unit, 'a Vector) outcome" where
  "copy_assign E this other =
     (if vec_size other > Capacity this then
        (case Vector_copy E other of
           Return new_vector u \<Rightarrow>
             (let (t, nv) = Vector_Swap this new_vector
              in (case Vector_dtor nv of
                    None \<Rightarrow> Undefined
                  | Some b \<Rightarrow> Return () t))
         | Throw e u \<Rightarrow> Throw e this
         | Undefined \<Rightarrow> Undefined)
      else
        (let n = min (vec_size other) (vec_size this) in
         (case copy_assign_loop E (rm_buffer (vec_data this)) (rm_buffer (vec_data other)) 0 n of
            Return u b \<Rightarrow>
              (if vec_size other > vec_size this then
                 (case uninitialized_copy_n E (rm_buffer (vec_data other)) (vec_size this)
                         (vec_size other - vec_size this) b (vec_size this) of
                    Return u' (src, dst) \<Rightarrow>
                      Return () \<lparr>vec_data = \<lparr>rm_buffer = dst, rm_capacity = rm_capacity (vec_data this)\<rparr>,
                                 vec_size = vec_size other\<rparr>
                  | Throw e (src, dst) \<Rightarrow>
                      Throw e \<lparr>vec_data = \<lparr>rm_buffer = dst, rm_capacity = rm_capacity (vec_data this)\<rparr>,
                               vec_size = vec_size this\<rparr>
                  | Undefined \<Rightarrow> Undefined)
               else
                 (case destroy_n b (vec_size other) (vec_size this - vec_size other) of
                    None \<Rightarrow> Undefined
                  | Some b' \<Rightarrow>
                      Return () \<lparr>vec_data = \<lparr>rm_buffer = b', rm_capacity = rm_capacity (vec_data this)\<rparr>,
                                 vec_size = vec_size other\<rparr>))
          | Throw e b \<Rightarrow>
              Throw e \<lparr>vec_data = \<lparr>rm_buffer = b, rm_capacity = rm_capacity (vec_data this)\<rparr>,
                       vec_size = vec_size this\<rparr>
          | Undefined \<Rightarrow> Undefined)))"

text \<open>
  The body of \<open>operator=(Vector&& other) noexcept\<close> under its guard: \<open>this\<close> and \<open>other\<close> as
  the call leaves them.
\<close>

definition move_assign :: "'a Vector \<Rightarrow> 'a Vector \<Rightarrow> 'a Vector \<times> 'a Vector" where
  "move_assign this other =
     (let (d, od) = RawMemory_move_assign (vec_data this) (vec_data other)
      in (\<lparr>vec_data = d, vec_size = vec_size other\<rparr>, \<lparr>vec_data = od, vec_size = 0\<rparr>))"

text \<open>
  The two operators themselves take the addresses of two objects, which may be the same
  object. A store maps the address of each vector to its value; the operators return
  \<open>*this\<close>, the address \<open>this\<close>.
\<close>

type_synonym 'a store = "nat \<Rightarrow> 'a Vector option"

definition operator_assign_copy :: "'a env \<Rightarrow> nat \<Rightarrow> nat \<Rightarrow> 'a store \<Rightarrow> (nat, 'a store) outcome" where
  "operator_assign_copy E this other \<sigma> =
     (case (\<sigma> this, \<sigma> other) of
        (Some a, Some b) \<Rightarrow>
          (if this \<noteq> other then
             (case copy_assign E a b of
                Return u a' \<Rightarrow> Return this (\<sigma>(this \<mapsto> a'))
              | Throw e a' \<Rightarrow> Throw e (\<sigma>(this \<mapsto> a'))
              | Undefined \<Rightarrow> Undefined)
           else Return this \<sigma>)
      | _ \<Rightarrow> Undefined)"

definition operator_assign_move :: "nat \<Rightarrow> nat \<Rightarrow> 'a store \<Rightarrow> (nat, 'a store) outcome" where
  "operator_assign_move this other \<sigma> =
     (case (\<sigma> this, \<sigma> other) of
        (Some a, Some b) \<Rightarrow>
          (if this \<noteq> other then
             (let (a', b') = move_assign a b
              in Return this (\<sigma>(this \<mapsto> a', other \<mapsto> b')))
           else Return this \<sigma>)
      | _ \<Rightarrow> Undefined)"

section \<open>Capacity\<close>



section \<open>Insertion and removal at a position\<close>

text \<open>
  A position \<^verbatim>\<open>pos\<close> is the index \<open>pos - begin()\<close>; \<open>end()\<close> is the index \<open>size_\<close>, and a
  position outside \<open>[begin(), end()]\<close> is undefined behaviour. The iterator a call returns
  is an index into the storage as the call leaves it.
\<close>

definition PopBack :: "'a Vector \<Rightarrow> (unit, 'a Vector) outcome" where
  "PopBack v =
     (if vec_size v = 0 then Undefined
      else
        (let i = vec_size v - 1; buf = rm_buffer (vec_data v) in
         if i < rm_capacity (vec_data v) \<and> i < length buf \<and> buf ! i \<noteq> Raw then
           Return () \<lparr>vec_data = \<lparr>rm_buffer = buf[i := Raw], rm_capacity = rm_capacity (vec_data v)\<rparr>,
                      vec_size = i\<rparr>
         else Undefined))"

definition Emplace :: "'a env \<Rightarrow> nat \<Rightarrow> 'a option \<Rightarrow> 'a Vector \<Rightarrow> (nat, 'a Vector) outcome" where
  "Emplace E index arg v =
     (if vec_size v \<le> rm_capacity (vec_data v) \<and> index \<le> vec_size v then
        (if index = vec_size v then EmplaceBack E arg v
         else if vec_size v \<noteq> Capacity v then
           (case arg of
              None \<Rightarrow> Throw elem_exn v
            | Some temp_obj \<Rightarrow>
                (let last_el = vec_size v - 1; buf = rm_buffer (vec_data v) in
                 if last_el < length buf \<and> vec_size v < length buf then
                   (case buf ! last_el of
                      Raw \<Rightarrow> Undefined
                    | Live x \<Rightarrow>
                        if move_throws E x then Throw elem_exn v
                        else
                          (case move_backward E (buf[vec_size v := Live x, last_el := Live (moved_from E x)])
                                  index last_el (vec_size v) of
                             Return u b \<Rightarrow>
                               (if index < length b then
                                  (case b ! index of
                                     Raw \<Rightarrow> Undefined
                                   | Live y \<Rightarrow>
                                       if move_assign_throws E temp_obj then
                                         Throw elem_exn
                                           \<lparr>vec_data = \<lparr>rm_buffer = b, rm_capacity = rm_capacity (vec_data v)\<rparr>,
                                            vec_size = vec_size v\<rparr>
                                       else
                                         Return index
                                           \<lparr>vec_data = \<lparr>rm_buffer = b[index := Live temp_obj],
                                                        rm_capacity = rm_capacity (vec_data v)\<rparr>,
                                            vec_size = vec_size v + 1\<rparr>)
                                else Undefined)
                           | Throw e b \<Rightarrow>
                               Throw e \<lparr>vec_data = \<lparr>rm_buffer = b, rm_capacity = rm_capacity (vec_data v)\<rparr>,
                                        vec_size = vec_size v\<rparr>
                           | Undefined \<Rightarrow> Undefined))
                 else Undefined))
         else
           (case RawMemory_new E (if vec_size v = 0 then 1 else size_t_mult (vec_size v) 2) of
              None \<Rightarrow> Throw bad_alloc v
            | Some new_data \<Rightarrow>
                (case construct_at (rm_buffer new_data) index arg of
                   Return u nb \<Rightarrow>
                     (case ReplaceOrCopyData E (rm_buffer (vec_data v)) 0 index nb 0 of
                        Return u' (old, new) \<Rightarrow>
                          (case (case ReplaceOrCopyData E old index (vec_size v - index) new (index + 1) of
                                   Return u'' (old', new') \<Rightarrow> Some (old', new')
                                 | Throw e (old', new') \<Rightarrow>
                                     (case destroy_n new' 0 (index + 1) of
                                        None \<Rightarrow> None
                                      | Some new'' \<Rightarrow> Some (old', new''))
                                 | Undefined \<Rightarrow> None) of
                             None \<Rightarrow> Undefined
                           | Some (old', new') \<Rightarrow>
                               (let (d, nd) = RawMemory_Swap
                                                \<lparr>rm_buffer = old', rm_capacity = rm_capacity (vec_data v)\<rparr>
                                                \<lparr>rm_buffer = new', rm_capacity = rm_capacity new_data\<rparr>
                                in Return index \<lparr>vec_data = d, vec_size = vec_size v + 1\<rparr>))
                      | Throw e (old, new) \<Rightarrow>
                          (case destroy_n new index 1 of
                             None \<Rightarrow> Undefined
                           | Some new' \<Rightarrow>
                               Throw e \<lparr>vec_data = \<lparr>rm_buffer = old, rm_capacity = rm_capacity (vec_data v)\<rparr>,
                                        vec_size = vec_size v\<rparr>)
                      | Undefined \<Rightarrow> Undefined)
                 | Throw e nb \<Rightarrow> Throw e v
                 | Undefined \<Rightarrow> Undefined)))
      else Undefined)"

definition Insert :: "'a env \<Rightarrow> nat \<Rightarrow> 'a \<Rightarrow> 'a Vector \<Rightarrow> (nat, 'a Vector) outcome" where
  "Insert E pos value v = Emplace E pos (copy_of E value) v"

definition Insert_move :: "'a env \<Rightarrow> nat \<Rightarrow> 'a \<Rightarrow> 'a Vector \<Rightarrow> (nat, 'a Vector) outcome" where
  "Insert_move E pos value v = Emplace E pos (move_of E value) v"

definition Erase :: "'a env \<Rightarrow> nat \<Rightarrow> 'a Vector \<Rightarrow> (nat, 'a Vector) outcome" where
  "Erase E index v =
     (if vec_size v \<le> rm_capacity (vec_data v) \<and> index \<le> vec_size v then
        (if index = vec_size v then
           (case PopBack v of
              Return u v' \<Rightarrow> Return (vec_size v') v'
            | Throw e v' \<Rightarrow> Throw e v'
            | Undefined \<Rightarrow> Undefined)
         else
           (case move_range E (rm_buffer (vec_data v)) (index + 1) (vec_size v) index of
              Return u b \<Rightarrow>
                (case PopBack \<lparr>vec_data = \<lparr>rm_buffer = b, rm_capacity = rm_capacity (vec_data v)\<rparr>,
                               vec_size = vec_size v\<rparr> of
                   Return u' v' \<Rightarrow> Return index v'
                 | Throw e v' \<Rightarrow> Throw e v'
                 | Undefined \<Rightarrow> Undefined)
            | Throw e b \<Rightarrow>
                Throw e \<lparr>vec_data = \<lparr>rm_buffer = b, rm_capacity = rm_capacity (vec_data v)\<rparr>,
                         vec_size = vec_size v\<rparr>
            | Undefined \<Rightarrow> Undefined))
      else Undefined)"

section \<open>Well-formed vectors, their contents, and an element type\<close>

text \<open>
  The invariant of the class: the block has \<open>capacity_\<close> slots, \<open>size_\<close> is at most the
  capacity, the first \<open>size_\<close> slots hold objects and the others are raw memory.
\<close>

definition is_live :: "'a slot \<Rightarrow> bool" where
  "is_live s = (case s of Raw \<Rightarrow> False | Live x \<Rightarrow> True)"

definition valid :: "'a Vector \<Rightarrow> bool" where
  "valid v =
     (length (rm_buffer (vec_data v)) = rm_capacity (vec_data v) \<and>
      vec_size v \<le> rm_capacity (vec_data v) \<and>
      list_all is_live (take (vec_size v) (rm_buffer (vec_data v))) \<and>
      list_all (\<lambda>s. s = Raw) (drop (vec_size v) (rm_buffer (vec_data v))))"

text \<open>The values of the objects in the slots \<open>[0, size_)\<close>, in order.\<close>

fun slot_values :: "'a slot list \<Rightarrow> 'a list" where
  "slot_values [] = []"
| "slot_values (Raw # ss) = slot_values ss"
| "slot_values (Live x # ss) = x # slot_values ss"

definition elements :: "'a Vector \<Rightarrow> 'a list" where
  "elements v = slot_values (take (vec_size v) (rm_buffer (vec_data v)))"

text \<open>
  \<open>int\<close> as an element type: nothing throws, a moved-from object keeps its value, \<open>int()\<close>
  is \<open>0\<close>, \<open>sizeof(int)\<close> is \<open>4\<close>. \<open>operator new\<close> never throws.
\<close>

definition int_env :: "int env" where
  "int_env =
     \<lparr>nothrow_move_constructible = True, copy_constructible = True,
      copy_throws = (\<lambda>x. False), move_throws = (\<lambda>x. False),
      copy_assign_throws = (\<lambda>x. False), move_assign_throws = (\<lambda>x. False),
      moved_from = (\<lambda>x. x), value_init = Some 0, sizeof_T = 4, new_throws = (\<lambda>b. False)\<rparr>"

text \<open>
  A probe type over \<open>int\<close>: its move constructor may throw, so transfers copy, and its copy
  constructor throws on the value \<open>m\<close>.
\<close>

definition probe_env :: "int \<Rightarrow> int env" where
  "probe_env m =
     \<lparr>nothrow_move_constructible = False, copy_constructible = True,
      copy_throws = (\<lambda>x. x = m), move_throws = (\<lambda>x. x = m),
      copy_assign_throws = (\<lambda>x. False), move_assign_throws = (\<lambda>x. False),
      moved_from = (\<lambda>x. x), value_init = Some 0, sizeof_T = 4, new_throws = (\<lambda>b. False)\<rparr>"

text \<open>The vector that holds the values \<open>xs\<close> and has \<open>k\<close> spare slots.\<close>

definition mk_vector :: "'a list \<Rightarrow> nat \<Rightarrow> 'a Vector" where
  "mk_vector xs k =
     \<lparr>vec_data = \<lparr>rm_buffer = map Live xs @ replicate k Raw, rm_capacity = length xs + k\<rparr>,
      vec_size = length xs\<rparr>"

text \<open>
  The same with any value \<open>c\<close> in \<open>capacity_\<close>: what a vector looks like once \<open>Allocate\<close> has
  returned a block with fewer slots than asked for.
\<close>

definition mk_block :: "'a list \<Rightarrow> nat \<Rightarrow> nat \<Rightarrow> 'a Vector" where
  "mk_block xs j c =
     \<lparr>vec_data = \<lparr>rm_buffer = map Live xs @ replicate j Raw, rm_capacity = c\<rparr>,
      vec_size = length xs\<rparr>"

section \<open>Sequences of calls and element types that do not throw\<close>

text \<open>
  \<open>ReplaceOrCopyData\<close> moves or copies; \<open>transfer_throws E x\<close> says whether the constructor
  it uses throws on the value \<open>x\<close>.
\<close>

definition transfer_throws :: "'a env \<Rightarrow> 'a \<Rightarrow> bool" where
  "transfer_throws E x =
     (if nothrow_move_constructible E \<or> \<not> copy_constructible E then move_throws E x
      else copy_throws E x)"

text \<open>No constructor and no assignment of the element type throws on a value of \<open>xs\<close>.\<close>

definition nothrow_on :: "'a env \<Rightarrow> 'a list \<Rightarrow> bool" where
  "nothrow_on E xs =
     list_all (\<lambda>x. \<not> copy_throws E x \<and> \<not> move_throws E x \<and>
                  \<not> copy_assign_throws E x \<and> \<not> move_assign_throws E x) xs"

text \<open>
  A call that appends one element: \<open>PushBack(const T&)\<close>, \<open>PushBack(T&&)\<close>, or an
  \<open>EmplaceBack\<close> whose constructor call builds the value \<open>x\<close>.
\<close>

datatype 'a push_call = Push 'a | Push_rvalue 'a | Emplace_back 'a

fun call_value :: "'a push_call \<Rightarrow> 'a" where
  "call_value (Push x) = x"
| "call_value (Push_rvalue x) = x"
| "call_value (Emplace_back x) = x"

fun push :: "'a env \<Rightarrow> 'a push_call \<Rightarrow> 'a Vector \<Rightarrow> (unit, 'a Vector) outcome" where
  "push E (Push x) v = PushBack E x v"
| "push E (Push_rvalue x) v = PushBack_move E x v"
| "push E (Emplace_back x) v =
     (case EmplaceBack E (Some x) v of
        Return r v' \<Rightarrow> Return () v'
      | Throw e v' \<Rightarrow> Throw e v'
      | Undefined \<Rightarrow> Undefined)"

text \<open>The calls of a list one after the other; the first that does not return ends the run.\<close>

fun push_all :: "'a env \<Rightarrow> 'a push_call list \<Rightarrow> 'a Vector \<Rightarrow> (unit, 'a Vector) outcome" where
  "push_all E [] v = Return () v"
| "push_all E (c # cs) v =
     (case push E c v of
        Return u v' \<Rightarrow> push_all E cs v'
      | Throw e v' \<Rightarrow> Throw e v'
      | Undefined \<Rightarrow> Undefined)"

text \<open>
  The capacity a full vector of size \<open>n\<close> grows to, \<^verbatim>\<open>size_ == 0 ? 1 : size_ * 2\<close>: as a
  number (\<open>grown\<close>) and as the source computes it, in \<open>size_t\<close> (\<open>grown_size_t\<close>).
\<close>

definition grown :: "nat \<Rightarrow> nat" where
  "grown n = (if n = 0 then 1 else n * 2)"

definition grown_size_t :: "nat \<Rightarrow> nat" where
  "grown_size_t n = (if n = 0 then 1 else size_t_mult n 2)"

section \<open>The algorithms on segments of a block\<close>

lemma nth_mid: "length A = i \<Longrightarrow> (A @ x # B) ! i = x"
  by (simp add: nth_append)

lemma upd_mid: "length A = i \<Longrightarrow> (A @ x # B)[i := y] = A @ y # B"
  by (simp add: list_update_append)

lemma transfer_Return:
  "length A = i \<Longrightarrow> length C = d \<Longrightarrow> length D = length ys \<Longrightarrow> \<forall>y\<in>set ys. \<not> thr y \<Longrightarrow>
   uninitialized_transfer_n thr mf (A @ map Live ys @ B) i (length ys) (C @ D @ F) d =
     Return () (A @ map (\<lambda>y. Live (mf y)) ys @ B, C @ map Live ys @ F)"
proof (induction ys arbitrary: A i C d D)
  case Nil
  then show ?case by simp
next
  case (Cons y ys)
  from Cons.prems obtain D0 D' where D: "D = D0 # D'" and lD: "length D' = length ys"
    by (cases D) auto
  have IH: "uninitialized_transfer_n thr mf ((A @ [Live (mf y)]) @ map Live ys @ B) (Suc i) (length ys)
              ((C @ [Live y]) @ D' @ F) (Suc d) =
            Return () ((A @ [Live (mf y)]) @ map (\<lambda>y. Live (mf y)) ys @ B, (C @ [Live y]) @ map Live ys @ F)"
    using Cons.prems lD by (intro Cons.IH) auto
  show ?case
    using Cons.prems IH by (simp add: D nth_mid upd_mid)
qed

lemma transfer_Throw:
  "length A = i \<Longrightarrow> length C = d \<Longrightarrow> length D = length ys \<Longrightarrow> \<exists>y\<in>set ys. thr y \<Longrightarrow>
   \<exists>s. uninitialized_transfer_n thr mf (A @ map Live ys @ B) i (length ys) (C @ D @ F) d = Throw elem_exn s"
proof (induction ys arbitrary: A i C d D)
  case Nil
  then show ?case by simp
next
  case (Cons y ys)
  from Cons.prems obtain D0 D' where D: "D = D0 # D'" and lD: "length D' = length ys"
    by (cases D) auto
  show ?case
  proof (cases "thr y")
    case True
    with Cons.prems show ?thesis by (simp add: D nth_mid)
  next
    case False
    with Cons.prems have ex: "\<exists>y\<in>set ys. thr y" by auto
    have "\<exists>s. uninitialized_transfer_n thr mf ((A @ [Live (mf y)]) @ map Live ys @ B) (Suc i) (length ys)
              ((C @ [Live y]) @ D' @ F) (Suc d) = Throw elem_exn s"
      using Cons.prems lD ex by (intro Cons.IH) auto
    then obtain s where "uninitialized_transfer_n thr mf ((A @ [Live (mf y)]) @ map Live ys @ B) (Suc i) (length ys)
              ((C @ [Live y]) @ D' @ F) (Suc d) = Throw elem_exn s" by blast
    then show ?thesis
      using Cons.prems False by (cases s) (simp add: D nth_mid upd_mid)
  qed
qed

lemma destroy_n_live:
  "length A = i \<Longrightarrow> list_all is_live D \<Longrightarrow> destroy_n (A @ D @ B) i (length D) = Some (A @ replicate (length D) Raw @ B)"
proof (induction D arbitrary: A i)
  case Nil
  then show ?case by simp
next
  case (Cons s D)
  have "destroy_n ((A @ [Raw]) @ D @ B) (Suc i) (length D) = Some ((A @ [Raw]) @ replicate (length D) Raw @ B)"
    using Cons.prems by (intro Cons.IH) auto
  then show ?case
    using Cons.prems by (cases s) (simp_all add: nth_mid upd_mid is_live_def)
qed




lemma copy_assign_loop_Return:
  "length A = i \<Longrightarrow> length A' = i \<Longrightarrow> length ys = length xs \<Longrightarrow> \<forall>x\<in>set xs. \<not> copy_assign_throws E x \<Longrightarrow>
   copy_assign_loop E (A @ map Live ys @ B) (A' @ map Live xs @ B') i (length xs) =
     Return () (A @ map Live xs @ B)"
proof (induction xs arbitrary: A A' i ys)
  case Nil
  then show ?case by simp
next
  case (Cons x xs)
  from Cons.prems obtain y ys' where ys: "ys = y # ys'" and l: "length ys' = length xs"
    by (cases ys) auto
  have "copy_assign_loop E ((A @ [Live x]) @ map Live ys' @ B) ((A' @ [Live x]) @ map Live xs @ B') (Suc i) (length xs) =
          Return () ((A @ [Live x]) @ map Live xs @ B)"
    using Cons.prems l by (intro Cons.IH) auto
  then show ?case
    using Cons.prems by (simp add: ys nth_mid upd_mid)
qed

lemma copy_assign_loop_Throw:
  "length A = i \<Longrightarrow> length A' = i \<Longrightarrow> length ys = length xs \<Longrightarrow> \<exists>x\<in>set xs. copy_assign_throws E x \<Longrightarrow>
   \<exists>b. copy_assign_loop E (A @ map Live ys @ B) (A' @ map Live xs @ B') i (length xs) = Throw elem_exn b"
proof (induction xs arbitrary: A A' i ys)
  case Nil
  then show ?case by simp
next
  case (Cons x xs)
  from Cons.prems obtain y ys' where ys: "ys = y # ys'" and l: "length ys' = length xs"
    by (cases ys) auto
  show ?case
  proof (cases "copy_assign_throws E x")
    case True
    with Cons.prems show ?thesis by (simp add: ys nth_mid)
  next
    case False
    with Cons.prems have ex: "\<exists>x\<in>set xs. copy_assign_throws E x" by auto
    have "\<exists>b. copy_assign_loop E ((A @ [Live x]) @ map Live ys' @ B) ((A' @ [Live x]) @ map Live xs @ B') (Suc i) (length xs) =
          Throw elem_exn b"
      using Cons.prems l ex by (intro Cons.IH) auto
    then show ?thesis
      using Cons.prems False by (simp add: ys nth_mid upd_mid)
  qed
qed

lemma move_backward_n_Return:
  "length A + length ys = lst \<Longrightarrow> \<forall>y\<in>set ys. \<not> move_assign_throws E y \<Longrightarrow>
   move_backward_n E (A @ map Live ys @ Live z # B) lst (Suc lst) (length ys) =
     Return () (if ys = [] then A @ Live z # B
                else A @ Live (moved_from E (hd ys)) # map Live ys @ B)"
proof (induction ys arbitrary: lst z B rule: rev_induct)
  case Nil
  then show ?case by simp
next
  case (snoc y ys)
  define P where "P = A @ map Live ys"
  have lenP: "length P = lst - 1" and lst: "0 < lst" "Suc (lst - 1) = lst"
    using snoc.prems by (auto simp: P_def)
  have lenP': "length (P @ [Live y]) = lst"
    using lenP lst by simp
  have buf: "A @ map Live (ys @ [y]) @ Live z # B = P @ Live y # Live z # B"
    by (simp add: P_def)
  have r1: "(P @ Live y # Live z # B) ! (lst - 1) = Live y"
    using lenP by (rule nth_mid)
  have r2: "(P @ Live y # Live z # B) ! lst = Live z"
    using nth_mid[OF lenP', of "Live z" B] by simp
  have "(P @ Live y # Live z # B)[lst := Live y] = P @ Live y # Live y # B"
    using upd_mid[OF lenP', of "Live z" B "Live y"] by simp
  then have u: "(P @ Live y # Live z # B)[lst := Live y, lst - 1 := Live (moved_from E y)] =
           A @ map Live ys @ Live (moved_from E y) # Live y # B"
    using upd_mid[OF lenP, of "Live y" "Live y # B" "Live (moved_from E y)"] by (simp add: P_def)
  have len: "lst - 1 < length (P @ Live y # Live z # B)" "lst < length (P @ Live y # Live z # B)"
    using lenP lst by auto
  have IH: "move_backward_n E (A @ map Live ys @ Live (moved_from E y) # Live y # B) (lst - 1) (Suc (lst - 1)) (length ys) =
     Return () (if ys = [] then A @ Live (moved_from E y) # Live y # B
                else A @ Live (moved_from E (hd ys)) # map Live ys @ Live y # B)"
    using snoc.prems by (intro snoc.IH) auto
  show ?case
    unfolding buf using snoc.prems r1 r2 u len lst IH
    by (cases ys) simp_all
qed

lemma move_backward_n_Throw:
  "length A + length ys = lst \<Longrightarrow> \<exists>y\<in>set ys. move_assign_throws E y \<Longrightarrow>
   \<exists>b. move_backward_n E (A @ map Live ys @ Live z # B) lst (Suc lst) (length ys) = Throw elem_exn b"
proof (induction ys arbitrary: lst z B rule: rev_induct)
  case Nil
  then show ?case by simp
next
  case (snoc y ys)
  define P where "P = A @ map Live ys"
  have lenP: "length P = lst - 1" and lst: "0 < lst" "Suc (lst - 1) = lst"
    using snoc.prems by (auto simp: P_def)
  have lenP': "length (P @ [Live y]) = lst"
    using lenP lst by simp
  have buf: "A @ map Live (ys @ [y]) @ Live z # B = P @ Live y # Live z # B"
    by (simp add: P_def)
  have r1: "(P @ Live y # Live z # B) ! (lst - 1) = Live y"
    using lenP by (rule nth_mid)
  have r2: "(P @ Live y # Live z # B) ! lst = Live z"
    using nth_mid[OF lenP', of "Live z" B] by simp
  have "(P @ Live y # Live z # B)[lst := Live y] = P @ Live y # Live y # B"
    using upd_mid[OF lenP', of "Live z" B "Live y"] by simp
  then have u: "(P @ Live y # Live z # B)[lst := Live y, lst - 1 := Live (moved_from E y)] =
           A @ map Live ys @ Live (moved_from E y) # Live y # B"
    using upd_mid[OF lenP, of "Live y" "Live y # B" "Live (moved_from E y)"] by (simp add: P_def)
  have len: "lst - 1 < length (P @ Live y # Live z # B)" "lst < length (P @ Live y # Live z # B)"
    using lenP lst by auto
  show ?case
  proof (cases "move_assign_throws E y")
    case True
    then show ?thesis
      unfolding buf using r1 r2 len lst by simp
  next
    case False
    with snoc.prems have ex: "\<exists>y\<in>set ys. move_assign_throws E y" by auto
    have "\<exists>b. move_backward_n E (A @ map Live ys @ Live (moved_from E y) # Live y # B) (lst - 1) (Suc (lst - 1)) (length ys) =
            Throw elem_exn b"
      using snoc.prems ex by (intro snoc.IH) auto
    then show ?thesis
      unfolding buf using False r1 r2 u len lst by simp
  qed
qed

lemma move_n_Return:
  "length A = d \<Longrightarrow> \<forall>y\<in>set ys. \<not> move_assign_throws E y \<Longrightarrow>
   move_n E (A @ Live z # map Live ys @ B) (Suc d) d (length ys) =
     Return () (if ys = [] then A @ Live z # B
                else A @ map Live ys @ Live (moved_from E (last ys)) # B)"
proof (induction ys arbitrary: A d z)
  case Nil
  then show ?case by simp
next
  case (Cons y ys)
  have r1: "(A @ Live z # Live y # map Live ys @ B) ! Suc d = Live y"
    using Cons.prems by (simp add: nth_append)
  have r2: "(A @ Live z # Live y # map Live ys @ B) ! d = Live z"
    using Cons.prems by (simp add: nth_append)
  have u: "(A @ Live z # Live y # map Live ys @ B)[d := Live y, Suc d := Live (moved_from E y)] =
           (A @ [Live y]) @ Live (moved_from E y) # map Live ys @ B"
    using Cons.prems by (simp add: list_update_append)
  have IH: "move_n E ((A @ [Live y]) @ Live (moved_from E y) # map Live ys @ B) (Suc (Suc d)) (Suc d) (length ys) =
     Return () (if ys = [] then (A @ [Live y]) @ Live (moved_from E y) # B
                else (A @ [Live y]) @ map Live ys @ Live (moved_from E (last ys)) # B)"
    using Cons.prems by (intro Cons.IH) auto
  show ?case
    using Cons.prems r1 r2 u IH by simp
qed

lemma move_n_Throw:
  "length A = d \<Longrightarrow> \<exists>y\<in>set ys. move_assign_throws E y \<Longrightarrow>
   \<exists>b. move_n E (A @ Live z # map Live ys @ B) (Suc d) d (length ys) = Throw elem_exn b"
proof (induction ys arbitrary: A d z)
  case Nil
  then show ?case by simp
next
  case (Cons y ys)
  have r1: "(A @ Live z # Live y # map Live ys @ B) ! Suc d = Live y"
    using Cons.prems by (simp add: nth_append)
  have r2: "(A @ Live z # Live y # map Live ys @ B) ! d = Live z"
    using Cons.prems by (simp add: nth_append)
  have u: "(A @ Live z # Live y # map Live ys @ B)[d := Live y, Suc d := Live (moved_from E y)] =
           (A @ [Live y]) @ Live (moved_from E y) # map Live ys @ B"
    using Cons.prems by (simp add: list_update_append)
  show ?case
  proof (cases "move_assign_throws E y")
    case True
    then show ?thesis using Cons.prems r1 r2 by simp
  next
    case False
    with Cons.prems have ex: "\<exists>y\<in>set ys. move_assign_throws E y" by auto
    have "\<exists>b. move_n E ((A @ [Live y]) @ Live (moved_from E y) # map Live ys @ B) (Suc (Suc d)) (Suc d) (length ys) =
            Throw elem_exn b"
      using Cons.prems ex by (intro Cons.IH) auto
    then show ?thesis
      using Cons.prems False r1 r2 u by simp
  qed
qed

section \<open>Well-formed vectors are the vectors \<open>mk_vector xs k\<close>\<close>

lemma slot_values_map_Live [simp]: "slot_values (map Live xs) = xs"
  by (induction xs) simp_all

lemma live_is_map: "list_all is_live ss \<Longrightarrow> map Live (slot_values ss) = ss"
proof (induction ss)
  case Nil
  then show ?case by simp
next
  case (Cons s ss)
  then show ?case by (cases s) (simp_all add: is_live_def)
qed

lemma raw_is_replicate: "list_all (\<lambda>s. s = Raw) ss \<Longrightarrow> ss = replicate (length ss) Raw"
  by (induction ss) simp_all

lemma list_all_live_map [simp]: "list_all is_live (map Live xs)"
  by (induction xs) (simp_all add: is_live_def)

lemma list_all_raw_replicate [simp]: "list_all (\<lambda>s. s = Raw) (replicate k Raw)"
  by (induction k) simp_all

lemma Size_mk_vector [simp]: "Size (mk_vector xs k) = length xs"
  by (simp add: Size_def mk_vector_def)

lemma Capacity_mk_vector [simp]: "Capacity (mk_vector xs k) = length xs + k"
  by (simp add: Capacity_def mk_vector_def)

lemma elements_mk_vector [simp]: "elements (mk_vector xs k) = xs"
  by (simp add: elements_def mk_vector_def)

lemma valid_mk_vector [simp]: "valid (mk_vector xs k)"
  by (simp add: valid_def mk_vector_def)

lemma valid_is_mk_vector:
  assumes "valid v"
  shows "v = mk_vector (elements v) (Capacity v - Size v)"
proof -
  let ?b = "rm_buffer (vec_data v)"
  let ?n = "vec_size v"
  from assms have len: "length ?b = rm_capacity (vec_data v)" and le: "?n \<le> rm_capacity (vec_data v)"
    and live: "list_all is_live (take ?n ?b)" and raw: "list_all (\<lambda>s. s = Raw) (drop ?n ?b)"
    by (simp_all add: valid_def)
  have l1: "length (slot_values (take ?n ?b)) = ?n"
    using live_is_map[OF live] len le by (metis length_map length_take min.absorb2)
  have "?b = take ?n ?b @ drop ?n ?b" by simp
  also have "\<dots> = map Live (slot_values (take ?n ?b)) @ replicate (length ?b - ?n) Raw"
    using live_is_map[OF live] raw_is_replicate[OF raw] by simp
  finally have b: "?b = map Live (elements v) @ replicate (Capacity v - Size v) Raw"
    using len by (simp add: elements_def Capacity_def Size_def)
  have "rm_buffer (vec_data v) = rm_buffer (vec_data (mk_vector (elements v) (Capacity v - Size v)))"
    using b by (simp add: mk_vector_def)
  moreover have "rm_capacity (vec_data v) = rm_capacity (vec_data (mk_vector (elements v) (Capacity v - Size v)))"
    using l1 le by (simp add: mk_vector_def elements_def Capacity_def Size_def)
  moreover have "vec_size v = vec_size (mk_vector (elements v) (Capacity v - Size v))"
    using l1 by (simp add: mk_vector_def elements_def)
  ultimately show ?thesis
    by (simp add: RawMemory.equality Vector.equality)
qed

lemma at_mk_vector: "i < length xs \<Longrightarrow> at (mk_vector xs k) i = Some (xs ! i)"
  by (simp add: at_def mk_vector_def nth_append)

section \<open>The allocator\<close>

lemma size_t_mult_mod: "size_t_mult a b = (a * b) mod 2 ^ 64"
  by (simp add: size_t_mult_def unat_of_nat flip: of_nat_mult)

lemma RawMemory_new_ok:
  "\<not> alloc_fails E n \<Longrightarrow> RawMemory_new E n = Some \<lparr>rm_buffer = replicate n Raw, rm_capacity = n\<rparr>"
  by (simp add: alloc_fails_def RawMemory_new_def)

lemma slots_le: "((n * s) mod 2 ^ 64) div s \<le> (n :: nat)"
proof (cases "s = 0")
  case True
  then show ?thesis by simp
next
  case False
  have "((n * s) mod 2 ^ 64) div s \<le> (n * s) div s"
    by (intro div_le_mono) simp
  with False show ?thesis by simp
qed

lemma RawMemory_new_cases:
  "RawMemory_new E n = None \<or>
   (\<exists>m\<le>n. RawMemory_new E n = Some \<lparr>rm_buffer = replicate m Raw, rm_capacity = n\<rparr>)"
  using slots_le[of n "sizeof_T E"]
  by (auto simp: RawMemory_new_def Allocate_def size_t_mult_mod Let_def)

lemma RawMemory_new_full:
  "RawMemory_new E n = Some \<lparr>rm_buffer = replicate n Raw, rm_capacity = n\<rparr> \<Longrightarrow> \<not> alloc_fails E n"
  by (auto simp: alloc_fails_def RawMemory_new_def split: option.splits)


lemma fits_alloc_fails:
  "fits_size_t E n \<Longrightarrow> alloc_fails E n = (n \<noteq> 0 \<and> new_throws E (n * sizeof_T E))"
  by (auto simp: fits_size_t_def alloc_fails_def Allocate_def size_t_mult_mod Let_def)

lemma alloc_ok_bound: "\<not> alloc_fails E n \<Longrightarrow> n < 2 ^ 64"
proof (cases "n = 0")
  case True
  then show ?thesis by simp
next
  case False
  assume "\<not> alloc_fails E n"
  with False have e: "((n * sizeof_T E) mod 2 ^ 64) div sizeof_T E = n"
    by (auto simp: alloc_fails_def Allocate_def size_t_mult_mod Let_def split: if_splits)
  have "((n * sizeof_T E) mod 2 ^ 64) div sizeof_T E \<le> (n * sizeof_T E) mod 2 ^ 64"
    by (rule div_le_dividend)
  also have "\<dots> < 2 ^ 64" by simp
  finally show ?thesis using e by simp
qed

lemma grown_no_wrap: "\<not> alloc_fails E (grown n) \<Longrightarrow> grown_size_t n = grown n"
proof -
  assume "\<not> alloc_fails E (grown n)"
  then have "grown n < 2 ^ 64" by (rule alloc_ok_bound)
  then show ?thesis
    by (simp add: grown_def grown_size_t_def size_t_mult_mod split: if_splits)
qed

lemma double_no_wrap:
  fixes n :: nat
  assumes "n < (n * 2) mod 2 ^ 64"
  shows "(n * 2) mod 2 ^ 64 = n * 2"
proof (cases "n * 2 < 2 ^ 64")
  case True
  then show ?thesis by simp
next
  case False
  then have "(n * 2) mod 2 ^ 64 = (n * 2 - 2 ^ 64) mod 2 ^ 64"
    by (simp add: le_mod_geq)
  also have "\<dots> \<le> n * 2 - 2 ^ 64" by (rule mod_less_eq_dividend)
  finally have "n < n * 2 - 2 ^ 64" using assms by simp
  then have "2 ^ 64 < n" by simp
  moreover have "(n * 2) mod 2 ^ 64 < (2 ^ 64 :: nat)" by simp
  ultimately show ?thesis using assms by simp
qed

lemma grown_size_t_above: "n < grown_size_t n \<Longrightarrow> grown_size_t n = grown n"
  using double_no_wrap[of n]
  by (simp add: grown_def grown_size_t_def size_t_mult_mod split: if_splits)

lemma int_env_alloc: "n * 4 < 2 ^ 64 \<Longrightarrow> \<not> alloc_fails int_env n"
  using fits_alloc_fails[of int_env n] by (simp add: fits_size_t_def int_env_def)

section \<open>Vectors whose block may be shorter than their capacity\<close>

lemma mk_vector_block: "mk_vector xs k = mk_block xs k (length xs + k)"
  by (simp add: mk_vector_def mk_block_def)

lemma Size_mk_block [simp]: "Size (mk_block xs j c) = length xs"
  by (simp add: Size_def mk_block_def)

lemma at_mk_block: "i < length xs \<Longrightarrow> length xs \<le> c \<Longrightarrow> at (mk_block xs j c) i = Some (xs ! i)"
  by (simp add: at_def mk_block_def nth_append)

lemma transfer_Return_bounds:
  "uninitialized_transfer_n thr mf src i n dst d = Return u s \<Longrightarrow> d \<le> length dst \<Longrightarrow>
   d + n \<le> length dst"
proof (induction n arbitrary: src i dst d s)
  case 0
  then show ?case by simp
next
  case (Suc n)
  from Suc.prems obtain x where r: "i < length src" "d < length dst" "src ! i = Live x" "\<not> thr x"
    by (auto split: if_splits slot.splits)
  with Suc.prems obtain s' where
    "uninitialized_transfer_n thr mf (src[i := Live (mf x)]) (Suc i) n (dst[d := Live x]) (Suc d) = Return u s'"
    by (auto split: outcome.splits prod.splits)
  from Suc.IH[OF this] r(2) show ?case by simp
qed

section \<open>ReplaceOrCopyData and EmplaceBack on well-formed vectors\<close>

lemma ReplaceOrCopyData_Return:
  assumes "length A = i" "length C = d" "length D = length ys" "\<forall>y\<in>set ys. \<not> transfer_throws E y"
  shows "ReplaceOrCopyData E (A @ map Live ys @ B) i (length ys) (C @ D @ F) d =
           Return () (A @ replicate (length ys) Raw @ B, C @ map Live ys @ F)"
proof -
  have d: "destroy_n (A @ map (\<lambda>y. Live (mf y)) ys @ B) i (length ys) = Some (A @ replicate (length ys) Raw @ B)" for mf
  proof -
    have "list_all is_live (map (\<lambda>y. Live (mf y)) ys)"
      by (induction ys) (simp_all add: is_live_def)
    from destroy_n_live[OF assms(1) this, of B] show ?thesis by simp
  qed
  show ?thesis
  proof (cases "nothrow_move_constructible E \<or> \<not> copy_constructible E")
    case True
    with assms(4) have nt: "\<forall>y\<in>set ys. \<not> move_throws E y" by (simp add: transfer_throws_def)
    show ?thesis
      using True transfer_Return[OF assms(1-3) nt, of "moved_from E" B F] d[of "moved_from E"]
      by (simp add: ReplaceOrCopyData_def uninitialized_move_n_def)
  next
    case False
    with assms(4) have nt: "\<forall>y\<in>set ys. \<not> copy_throws E y" by (simp add: transfer_throws_def)
    show ?thesis
      using False transfer_Return[OF assms(1-3) nt, of "\<lambda>x. x" B F] d[of "\<lambda>x. x"]
      by (simp add: ReplaceOrCopyData_def uninitialized_copy_n_def)
  qed
qed

lemma ReplaceOrCopyData_Throw:
  assumes "length A = i" "length C = d" "length D = length ys" "\<exists>y\<in>set ys. transfer_throws E y"
  shows "\<exists>s. ReplaceOrCopyData E (A @ map Live ys @ B) i (length ys) (C @ D @ F) d = Throw elem_exn s"
proof (cases "nothrow_move_constructible E \<or> \<not> copy_constructible E")
  case True
  with assms(4) have nt: "\<exists>y\<in>set ys. move_throws E y" by (simp add: transfer_throws_def)
  show ?thesis
    using True transfer_Throw[OF assms(1-3) nt, of "moved_from E" B F]
    by (auto simp: ReplaceOrCopyData_def uninitialized_move_n_def)
next
  case False
  with assms(4) have nt: "\<exists>y\<in>set ys. copy_throws E y" by (simp add: transfer_throws_def)
  show ?thesis
    using False transfer_Throw[OF assms(1-3) nt, of "\<lambda>x. x" B F]
    by (auto simp: ReplaceOrCopyData_def uninitialized_copy_n_def)
qed


lemma EmplaceBack_spare:
  assumes "0 < k"
  shows "EmplaceBack E (Some x) (mk_vector xs k) = Return (length xs) (mk_vector (xs @ [x]) (k - 1))"
proof -
  from assms obtain k' where k: "k = Suc k'" by (cases k) auto
  have "(map Live xs @ Raw # replicate k' Raw)[length xs := Live x] = map Live xs @ Live x # replicate k' Raw"
    by (rule upd_mid) simp
  then show ?thesis
    by (simp add: EmplaceBack_def mk_vector_def Capacity_def construct_at_def k)
qed

lemma construct_at_fresh:
  "n < c \<Longrightarrow> construct_at (replicate c Raw) n (Some x) =
     Return () (replicate n Raw @ Live x # replicate (c - Suc n) Raw)"
proof -
  assume "n < c"
  then have "replicate c (Raw :: 'a slot) = replicate n Raw @ Raw # replicate (c - Suc n) Raw"
    by (metis Suc_diff_Suc add_diff_inverse_nat less_imp_le_nat not_less replicate_Suc replicate_add
        le_add_diff_inverse)
  moreover have "(replicate n Raw @ Raw # replicate (c - Suc n) Raw)[n := Live x] =
                 replicate n Raw @ Live x # replicate (c - Suc n) Raw"
    by (rule upd_mid) simp
  ultimately show ?thesis
    using \<open>n < c\<close> by (simp add: construct_at_def)
qed

lemma mk_block_fields [simp]:
  "vec_size (mk_block xs j c) = length xs"
  "rm_buffer (vec_data (mk_block xs j c)) = map Live xs @ replicate j Raw"
  "rm_capacity (vec_data (mk_block xs j c)) = c"
  "Capacity (mk_block xs j c) = c"
  by (simp_all add: mk_block_def Capacity_def)

lemma EmplaceBack_block_growth:
  "EmplaceBack E arg (mk_block xs j (length xs)) =
     (case RawMemory_new E (grown_size_t (length xs)) of
        None \<Rightarrow> Throw bad_alloc (mk_block xs j (length xs))
      | Some new_data \<Rightarrow>
          (case construct_at (rm_buffer new_data) (length xs) arg of
             Return u nb \<Rightarrow>
               (case ReplaceOrCopyData E (map Live xs @ replicate j Raw) 0 (length xs) nb 0 of
                  Return u' (old, new) \<Rightarrow>
                    Return (length xs)
                      \<lparr>vec_data = \<lparr>rm_buffer = new, rm_capacity = rm_capacity new_data\<rparr>,
                       vec_size = length xs + 1\<rparr>
                | Throw e (old, new) \<Rightarrow>
                    Throw e \<lparr>vec_data = \<lparr>rm_buffer = old, rm_capacity = length xs\<rparr>, vec_size = length xs\<rparr>
                | Undefined \<Rightarrow> Undefined)
           | Throw e nb \<Rightarrow> Throw e (mk_block xs j (length xs))
           | Undefined \<Rightarrow> Undefined))"
  by (simp add: EmplaceBack_def grown_size_t_def RawMemory_Swap_def
      cong: option.case_cong outcome.case_cong)

lemma EmplaceBack_block:
  assumes "EmplaceBack E arg (mk_block xs j c) = Return r v'"
  shows "\<exists>x j' c'. arg = Some x \<and> r = length xs \<and> v' = mk_block (xs @ [x]) j' c' \<and> length xs < c'"
proof (cases "length xs = c")
  case True
  let ?g = "grown_size_t (length xs)"
  note eb = EmplaceBack_block_growth[of E arg xs j]
  from assms True have a: "EmplaceBack E arg (mk_block xs j (length xs)) = Return r v'" by simp
  from RawMemory_new_cases[of E ?g] a
  obtain m where m: "m \<le> ?g"
    and nd: "RawMemory_new E ?g = Some \<lparr>rm_buffer = replicate m Raw, rm_capacity = ?g\<rparr>"
    by (auto simp: eb)
  from a nd obtain nb where ca: "construct_at (replicate m Raw) (length xs) arg = Return () nb"
    by (auto simp: eb split: outcome.splits)
  then obtain x where x: "arg = Some x" and lt: "length xs < m"
    by (auto simp: construct_at_def split: if_splits option.splits)
  from lt m have g: "length xs < ?g" by simp
  from construct_at_fresh[OF lt, of x] ca x
  have nb: "nb = replicate (length xs) Raw @ Live x # replicate (m - Suc (length xs)) Raw"
    by simp
  show ?thesis
  proof (cases "\<forall>y\<in>set xs. \<not> transfer_throws E y")
    case True
    have "ReplaceOrCopyData E ([] @ map Live xs @ replicate j Raw) 0 (length xs)
             ([] @ replicate (length xs) Raw @ Live x # replicate (m - Suc (length xs)) Raw) 0 =
           Return () ([] @ replicate (length xs) Raw @ replicate j Raw,
                      [] @ map Live xs @ Live x # replicate (m - Suc (length xs)) Raw)"
      using True by (intro ReplaceOrCopyData_Return) simp_all
    with a nd ca nb have "r = length xs \<and>
      v' = \<lparr>vec_data = \<lparr>rm_buffer = map Live xs @ Live x # replicate (m - Suc (length xs)) Raw,
                         rm_capacity = ?g\<rparr>, vec_size = length xs + 1\<rparr>"
      by (auto simp: eb)
    then have "r = length xs" "v' = mk_block (xs @ [x]) (m - Suc (length xs)) ?g"
      by (simp_all add: mk_block_def)
    with x g show ?thesis by blast
  next
    case False
    then have "\<exists>y\<in>set xs. transfer_throws E y" by simp
    then have "\<exists>s. ReplaceOrCopyData E ([] @ map Live xs @ replicate j Raw) 0 (length xs)
             ([] @ replicate (length xs) Raw @ Live x # replicate (m - Suc (length xs)) Raw) 0 =
           Throw elem_exn s"
      by (intro ReplaceOrCopyData_Throw) simp_all
    with a nd ca nb show ?thesis by (auto simp: eb)
  qed
next
  case False
  with assms have le: "length xs < c"
    by (auto simp: EmplaceBack_def split: if_splits)
  from assms False le obtain b where
    ca: "construct_at (map Live xs @ replicate j Raw) (length xs) arg = Return () b"
    and r: "r = length xs"
    and v': "v' = \<lparr>vec_data = \<lparr>rm_buffer = b, rm_capacity = c\<rparr>, vec_size = length xs + 1\<rparr>"
    by (auto simp: EmplaceBack_def split: if_splits outcome.splits)
  from ca obtain x where x: "arg = Some x" and j: "0 < j"
    by (auto simp: construct_at_def split: if_splits option.splits)
  from j obtain j' where j': "j = Suc j'" by (cases j) auto
  have "(map Live xs @ Raw # replicate j' Raw)[length xs := Live x] = map Live xs @ Live x # replicate j' Raw"
    by (rule upd_mid) simp
  with ca x j' have "b = map Live xs @ Live x # replicate j' Raw"
    by (simp add: construct_at_def)
  with v' have "v' = mk_block (xs @ [x]) j' c"
    by (simp add: mk_block_def)
  with x r le show ?thesis by blast
qed

lemma EmplaceBack_full_Return:
  assumes "\<not> alloc_fails E (grown (length xs))"
    and "\<forall>y\<in>set xs. \<not> transfer_throws E y"
  shows "EmplaceBack E (Some x) (mk_vector xs 0) =
           Return (length xs) (mk_vector (xs @ [x]) (grown (length xs) - Suc (length xs)))"
proof -
  let ?c = "grown (length xs)"
  have lt: "length xs < ?c" by (simp add: grown_def)
  have r: "ReplaceOrCopyData E ([] @ map Live xs @ replicate 0 Raw) 0 (length xs)
             ([] @ replicate (length xs) Raw @ Live x # replicate (?c - Suc (length xs)) Raw) 0 =
           Return () ([] @ replicate (length xs) Raw @ replicate 0 Raw,
                      [] @ map Live xs @ Live x # replicate (?c - Suc (length xs)) Raw)"
    using assms(2) by (intro ReplaceOrCopyData_Return) simp_all
  have c: "?c = Suc (length xs + (?c - Suc (length xs)))" using lt by simp
  have "EmplaceBack E (Some x) (mk_block xs 0 (length xs)) =
          Return (length xs)
            \<lparr>vec_data = \<lparr>rm_buffer = map Live xs @ Live x # replicate (?c - Suc (length xs)) Raw,
                         rm_capacity = ?c\<rparr>, vec_size = length xs + 1\<rparr>"
    using RawMemory_new_ok[OF assms(1)] construct_at_fresh[OF lt, of x] r
    by (simp add: EmplaceBack_block_growth grown_no_wrap[OF assms(1)])
  moreover have "mk_vector (xs @ [x]) (?c - Suc (length xs)) =
          \<lparr>vec_data = \<lparr>rm_buffer = map Live xs @ Live x # replicate (?c - Suc (length xs)) Raw,
                         rm_capacity = ?c\<rparr>, vec_size = length xs + 1\<rparr>"
    using c by (simp add: mk_vector_def)
  ultimately show ?thesis
    by (simp add: mk_vector_block)
qed

section \<open>Runs of pushes\<close>

lemma Vector_default_mk: "Vector_default = mk_vector [] 0"
  by (simp add: Vector_default_def mk_vector_def RawMemory_default_def)

lemma nothrow_on_transfer: "nothrow_on E xs \<Longrightarrow> \<forall>y\<in>set xs. \<not> transfer_throws E y"
  by (auto simp: nothrow_on_def transfer_throws_def list_all_iff)

lemma nothrow_on_append: "nothrow_on E (xs @ ys) = (nothrow_on E xs \<and> nothrow_on E ys)"
  by (simp add: nothrow_on_def)

lemma nothrow_on_single:
  "nothrow_on E [x] \<Longrightarrow> copy_of E x = Some x \<and> move_of E x = Some x \<and> \<not> move_assign_throws E x"
  by (simp add: nothrow_on_def copy_of_def move_of_def)

lemma copy_of_Some: "copy_of E x = Some y \<Longrightarrow> y = x"
  by (simp add: copy_of_def split: if_splits)

lemma move_of_Some: "move_of E x = Some y \<Longrightarrow> y = x"
  by (simp add: move_of_def split: if_splits)

lemma Vector_default_block: "Vector_default = mk_block [] 0 0"
  by (simp add: Vector_default_def mk_block_def RawMemory_default_def)

lemma push_Return_block:
  assumes "push E c (mk_block xs j n) = Return u v'"
  shows "\<exists>j' n'. v' = mk_block (xs @ [call_value c]) j' n' \<and> length xs < n'"
proof (cases c)
  case (Push x)
  with assms obtain r where "EmplaceBack E (copy_of E x) (mk_block xs j n) = Return r v'"
    by (auto simp: PushBack_def split: outcome.splits)
  from EmplaceBack_block[OF this] Push show ?thesis
    by (auto dest: copy_of_Some)
next
  case (Push_rvalue x)
  with assms obtain r where "EmplaceBack E (move_of E x) (mk_block xs j n) = Return r v'"
    by (auto simp: PushBack_move_def split: outcome.splits)
  from EmplaceBack_block[OF this] Push_rvalue show ?thesis
    by (auto dest: move_of_Some)
next
  case (Emplace_back x)
  with assms obtain r where "EmplaceBack E (Some x) (mk_block xs j n) = Return r v'"
    by (auto split: outcome.splits)
  from EmplaceBack_block[OF this] Emplace_back show ?thesis
    by auto
qed

lemma push_all_Return_block:
  "push_all E cs (mk_block xs j n) = Return u v \<Longrightarrow> length xs \<le> n \<Longrightarrow>
   \<exists>j' n'. v = mk_block (xs @ map call_value cs) j' n' \<and> length (xs @ map call_value cs) \<le> n'"
proof (induction cs arbitrary: xs j n)
  case Nil
  then show ?case by auto
next
  case (Cons c cs)
  from Cons.prems obtain u' v' where p: "push E c (mk_block xs j n) = Return u' v'"
    and rest: "push_all E cs v' = Return u v"
    by (auto split: outcome.splits)
  from push_Return_block[OF p] obtain j' n' where v': "v' = mk_block (xs @ [call_value c]) j' n'"
    and n': "length xs < n'" by blast
  from n' have "length (xs @ [call_value c]) \<le> n'" by simp
  from Cons.IH[OF rest[unfolded v'] this] show ?case by auto
qed

lemma EmplaceBack_total:
  assumes "\<not> alloc_fails E (grown (length xs))" "\<forall>y\<in>set xs. \<not> transfer_throws E y"
  shows "\<exists>k'. EmplaceBack E (Some x) (mk_vector xs k) = Return (length xs) (mk_vector (xs @ [x]) k')"
proof (cases "k = 0")
  case True
  with EmplaceBack_full_Return[OF assms, of x] show ?thesis by auto
next
  case False
  with EmplaceBack_spare[of k E x xs] show ?thesis by auto
qed

lemma push_total:
  assumes "\<not> alloc_fails E (grown (length xs))" "nothrow_on E xs" "nothrow_on E [call_value c]"
  shows "\<exists>k'. push E c (mk_vector xs k) = Return () (mk_vector (xs @ [call_value c]) k')"
proof -
  from EmplaceBack_total[OF assms(1) nothrow_on_transfer[OF assms(2)], of "call_value c" k]
  obtain k' where "EmplaceBack E (Some (call_value c)) (mk_vector xs k) =
      Return (length xs) (mk_vector (xs @ [call_value c]) k')" by blast
  then show ?thesis
    using nothrow_on_single[OF assms(3)]
    by (cases c) (auto simp: PushBack_def PushBack_move_def)
qed

lemma grown_le: "grown m \<le> 2 * (m + Suc l)"
  by (simp add: grown_def)

lemma push_all_total:
  "\<forall>n\<le>2 * (length xs + length cs). \<not> alloc_fails E n \<Longrightarrow> nothrow_on E xs \<Longrightarrow>
   nothrow_on E (map call_value cs) \<Longrightarrow>
   \<exists>k'. push_all E cs (mk_vector xs k) = Return () (mk_vector (xs @ map call_value cs) k')"
proof (induction cs arbitrary: xs k)
  case Nil
  then show ?case by auto
next
  case (Cons c cs)
  from Cons.prems have c: "nothrow_on E [call_value c]" and cs: "nothrow_on E (map call_value cs)"
    by (simp_all add: nothrow_on_def)
  from Cons.prems(1) grown_le[of "length xs" "length cs"]
  have "\<not> alloc_fails E (grown (length xs))" by simp
  from push_total[OF this Cons.prems(2) c, of k]
  obtain k' where p: "push E c (mk_vector xs k) = Return () (mk_vector (xs @ [call_value c]) k')" by blast
  have "nothrow_on E (xs @ [call_value c])"
    using Cons.prems(2) c by (simp add: nothrow_on_append)
  moreover from Cons.prems(1) have "\<forall>n\<le>2 * (length (xs @ [call_value c]) + length cs). \<not> alloc_fails E n"
    by simp
  ultimately show ?case
    using Cons.IH[of "xs @ [call_value c]" k'] cs p by auto
qed

section \<open>Capacity after EmplaceBack\<close>

lemma construct_at_Return_bound: "construct_at b i arg = Return u b' \<Longrightarrow> i < length b"
  by (auto simp: construct_at_def split: if_splits option.splits)

lemma EmplaceBack_capacity:
  assumes "EmplaceBack E arg v = Return r v'"
  shows "Capacity v' = (if Size v = Capacity v then (if Capacity v = 0 then 1 else 2 * Capacity v) else Capacity v)"
proof (cases "rm_capacity (vec_data v) = vec_size v")
  case True
  define n where "n = vec_size v"
  have eb: "EmplaceBack E arg v =
     (case RawMemory_new E (grown_size_t n) of
        None \<Rightarrow> Throw bad_alloc v
      | Some new_data \<Rightarrow>
          (case construct_at (rm_buffer new_data) n arg of
             Return u nb \<Rightarrow>
               (case ReplaceOrCopyData E (rm_buffer (vec_data v)) 0 n nb 0 of
                  Return u' (old, new) \<Rightarrow>
                    Return n \<lparr>vec_data = \<lparr>rm_buffer = new, rm_capacity = rm_capacity new_data\<rparr>,
                              vec_size = n + 1\<rparr>
                | Throw e (old, new) \<Rightarrow>
                    Throw e \<lparr>vec_data = \<lparr>rm_buffer = old, rm_capacity = n\<rparr>, vec_size = n\<rparr>
                | Undefined \<Rightarrow> Undefined)
           | Throw e nb \<Rightarrow> Throw e v
           | Undefined \<Rightarrow> Undefined))"
    using True
    by (simp add: EmplaceBack_def Capacity_def grown_size_t_def n_def RawMemory_Swap_def
        cong: option.case_cong outcome.case_cong)
  from assms obtain nd where nd: "RawMemory_new E (grown_size_t n) = Some nd"
    unfolding eb by (auto split: option.splits)
  with RawMemory_new_cases[of E "grown_size_t n"] obtain m where m: "m \<le> grown_size_t n"
    and nd': "nd = \<lparr>rm_buffer = replicate m Raw, rm_capacity = grown_size_t n\<rparr>"
    by auto
  from assms nd obtain nb where ca: "construct_at (rm_buffer nd) n arg = Return () nb"
    unfolding eb by (auto split: outcome.splits)
  from assms nd ca have c: "Capacity v' = rm_capacity nd"
    unfolding eb by (auto simp: Capacity_def split: outcome.splits prod.splits)
  from construct_at_Return_bound[OF ca] m have "n < grown_size_t n"
    by (simp add: nd')
  then have "grown_size_t n = grown n" by (rule grown_size_t_above)
  with c True show ?thesis
    by (simp add: nd' Size_def Capacity_def grown_def n_def mult.commute)
next
  case False
  with assms show ?thesis
    by (auto simp: EmplaceBack_def Capacity_def Size_def split: if_splits outcome.splits)
qed

lemma EmplaceBack_Throw_capacity:
  "EmplaceBack E arg v = Throw e v' \<Longrightarrow> Capacity v' = Capacity v \<and> Size v' = Size v"
  by (auto simp: EmplaceBack_def Capacity_def Size_def RawMemory_new_def RawMemory_Swap_def
      split: if_splits option.splits outcome.splits prod.splits)

section \<open>Reserve and Resize on well-formed vectors\<close>



lemma replicate_split: "m \<le> n \<Longrightarrow> replicate n x = replicate m x @ replicate (n - m) x"
  by (simp flip: replicate_add)








section \<open>Emplace and Erase on well-formed vectors\<close>

lemma Emplace_inplace:
  assumes "i < length xs" "0 < k" "\<not> move_throws E (last xs)"
    "\<forall>y\<in>set xs. \<not> move_assign_throws E y" "\<not> move_assign_throws E x"
  shows "Emplace E i (Some x) (mk_vector xs k) = Return i (mk_vector (take i xs @ x # drop i xs) (k - 1))"
proof -
  from assms(2) obtain k' where k: "k = Suc k'" by (cases k) auto
  define n where "n = length xs"
  define l where "l = last xs"
  define bl where "bl = butlast xs"
  from assms(1) have "xs \<noteq> []" by auto
  then have xs: "xs = bl @ [l]"
    by (simp add: bl_def l_def)
  from assms(1) have lbl: "length bl = n - 1" and n: "0 < n" "i \<le> n - 1"
    by (auto simp: bl_def n_def)
  define ys where "ys = drop i bl"
  define A where "A = map Live (take i bl)"
  have lA: "length A = i" using n lbl by (simp add: A_def)
  have bl: "map Live bl = A @ map Live ys"
    by (simp add: A_def ys_def flip: map_append)
  have lys: "length ys = n - 1 - i" by (simp add: ys_def lbl)
  define buf where "buf = map Live xs @ replicate k Raw"
  have buf: "buf = map Live bl @ Live l # Raw # replicate k' Raw"
    by (simp add: buf_def xs k)
  have lbuf: "length buf = n + k" by (simp add: buf_def n_def)
  have r: "buf ! (n - 1) = Live l"
    unfolding buf by (rule nth_mid) (simp add: lbl)
  define M where "M = map Live bl"
  have lM: "length M = n - 1" "length (M @ [Live l]) = n"
    using lbl n by (simp_all add: M_def)
  have "buf[n := Live l] = (M @ [Live l]) @ Live l # replicate k' Raw"
    using upd_mid[OF lM(2), of Raw "replicate k' Raw" "Live l"]
    by (simp add: buf M_def)
  then have "buf[n := Live l, n - 1 := Live (moved_from E l)] =
                M @ Live (moved_from E l) # Live l # replicate k' Raw"
    using upd_mid[OF lM(1), of "Live l" "Live l # replicate k' Raw" "Live (moved_from E l)"]
    by simp
  then have u: "buf[n := Live l, n - 1 := Live (moved_from E l)] =
                A @ map Live ys @ Live (moved_from E l) # Live l # replicate k' Raw"
    by (simp add: M_def bl)
  have nt: "\<forall>y\<in>set ys. \<not> move_assign_throws E y"
    using assms(4) by (auto simp: ys_def xs dest: in_set_dropD)
  have "move_backward_n E (A @ map Live ys @ Live (moved_from E l) # Live l # replicate k' Raw)
          (n - 1) (Suc (n - 1)) (length ys) =
        Return () (if ys = [] then A @ Live (moved_from E l) # Live l # replicate k' Raw
                   else A @ Live (moved_from E (hd ys)) # map Live ys @ Live l # replicate k' Raw)"
  proof (intro move_backward_n_Return)
    show "length A + length ys = n - 1" using n by (simp add: lA lys)
  qed (rule nt)
  then have mb: "move_backward E (buf[n := Live l, n - 1 := Live (moved_from E l)]) i (n - 1) n =
        Return () (A @ Live (moved_from E (if ys = [] then l else hd ys)) # map Live ys @ Live l # replicate k' Raw)"
    using n u lys by (cases "ys = []") (simp_all add: move_backward_def)
  let ?b = "A @ Live (moved_from E (if ys = [] then l else hd ys)) # map Live ys @ Live l # replicate k' Raw"
  have bi: "?b ! i = Live (moved_from E (if ys = [] then l else hd ys))"
    using lA by (rule nth_mid)
  have bu: "?b[i := Live x] = A @ Live x # map Live ys @ Live l # replicate k' Raw"
    using lA by (rule upd_mid)
  have lb: "i < length ?b" using lA by simp
  have res: "A @ Live x # map Live ys @ Live l # replicate k' Raw =
             map Live (take i xs @ x # drop i xs) @ replicate k' Raw"
    using n lbl by (simp add: A_def ys_def xs)
  have sz: "length (take i xs @ x # drop i xs) = n + 1"
    using assms(1) by (simp add: n_def)
  have l': "last xs = l" "length xs = n" by (simp_all add: l_def n_def)
  have e: "Emplace E i (Some x) \<lparr>vec_data = \<lparr>rm_buffer = buf, rm_capacity = n + k\<rparr>, vec_size = n\<rparr> =
           Return i \<lparr>vec_data = \<lparr>rm_buffer = map Live (take i xs @ x # drop i xs) @ replicate k' Raw,
                                  rm_capacity = n + k\<rparr>, vec_size = n + 1\<rparr>"
    using assms(1,3,5) n r mb bi bu lb lbuf
    by (simp add: Emplace_def Capacity_def Let_def k l' res del: list_update.simps)
  show ?thesis
    using e sz by (simp add: mk_vector_def buf_def k l')
qed


lemma Emplace_growth:
  assumes "i < length xs" "\<not> alloc_fails E (grown (length xs))" "\<forall>y\<in>set xs. \<not> transfer_throws E y"
  shows "Emplace E i (Some x) (mk_vector xs 0) =
           Return i (mk_vector (take i xs @ x # drop i xs) (grown (length xs) - Suc (length xs)))"
proof -
  define n where "n = length xs"
  define c where "c = n * 2"
  from assms(1) have n0: "0 < n" unfolding n_def by (cases xs) auto
  from assms(1) n0 have n: "0 < n" "i < n" "i < c" "n < c" unfolding c_def n_def by linarith+
  have g: "grown (length xs) = c" using n by (auto simp: grown_def c_def n_def)
  from grown_no_wrap[OF assms(2)] n0 have gs: "size_t_mult n 2 = c"
    by (simp add: grown_size_t_def g n_def)
  define m where "m = c - Suc n"
  have ci: "c - Suc i = (n - i) + m" using n by (simp add: m_def)
  have ca: "construct_at (replicate c Raw) i (Some x) =
              Return () (replicate i Raw @ Live x # replicate (n - i) Raw @ replicate m Raw)"
    using construct_at_fresh[OF n(3), of x] by (simp add: ci replicate_add)
  have t1: "\<forall>y\<in>set (take i xs). \<not> transfer_throws E y"
    using assms(3) by (auto dest: in_set_takeD)
  have t2: "\<forall>y\<in>set (drop i xs). \<not> transfer_throws E y"
    using assms(3) by (auto dest: in_set_dropD)
  have li: "length (take i xs) = i" "length (drop i xs) = n - i"
    using n by (simp_all add: n_def)
  have "ReplaceOrCopyData E ([] @ map Live (take i xs) @ map Live (drop i xs)) 0 (length (take i xs))
          ([] @ replicate i Raw @ Live x # replicate (n - i) Raw @ replicate m Raw) 0 =
        Return () ([] @ replicate (length (take i xs)) Raw @ map Live (drop i xs),
                   [] @ map Live (take i xs) @ Live x # replicate (n - i) Raw @ replicate m Raw)"
    using t1 li by (intro ReplaceOrCopyData_Return) simp_all
  moreover have x1: "map Live xs = map Live (take i xs) @ map Live (drop i xs)"
    by (simp flip: map_append)
  ultimately have r1: "ReplaceOrCopyData E (map Live xs) 0 i
          (replicate i Raw @ Live x # replicate (n - i) Raw @ replicate m Raw) 0 =
        Return () (replicate i Raw @ map Live (drop i xs),
                   map Live (take i xs) @ Live x # replicate (n - i) Raw @ replicate m Raw)"
    using li by simp
  have "ReplaceOrCopyData E (replicate i Raw @ map Live (drop i xs) @ []) i (length (drop i xs))
          ((map Live (take i xs) @ [Live x]) @ replicate (n - i) Raw @ replicate m Raw) (i + 1) =
        Return () (replicate i Raw @ replicate (length (drop i xs)) Raw @ [],
                   (map Live (take i xs) @ [Live x]) @ map Live (drop i xs) @ replicate m Raw)"
    using t2 li by (intro ReplaceOrCopyData_Return) simp_all
  then have r2: "ReplaceOrCopyData E (replicate i Raw @ map Live (drop i xs)) i (n - i)
          (map Live (take i xs) @ Live x # replicate (n - i) Raw @ replicate m Raw) (Suc i) =
        Return () (replicate i Raw @ replicate (n - i) Raw,
                   map Live (take i xs) @ Live x # map Live (drop i xs) @ replicate m Raw)"
    using li by simp
  have cap: "c = Suc (n + m)" using n by (simp add: m_def)
  have e: "Emplace E i (Some x) \<lparr>vec_data = \<lparr>rm_buffer = map Live xs, rm_capacity = n\<rparr>, vec_size = n\<rparr> =
           Return i \<lparr>vec_data = \<lparr>rm_buffer = map Live (take i xs) @ Live x # map Live (drop i xs) @ replicate m Raw,
                                  rm_capacity = c\<rparr>, vec_size = n + 1\<rparr>"
    using n RawMemory_new_ok[OF assms(2)] ca r1 r2
    by (simp add: Emplace_def Capacity_def RawMemory_Swap_def g gs)
  have sz: "length (take i xs @ x # drop i xs) = n + 1"
    using n by (simp add: n_def)
  have cap': "Suc (n + m) = c" using cap by simp
  have mg: "grown (length xs) - Suc (length xs) = m"
    by (simp add: g m_def n_def)
  have mk1: "mk_vector xs 0 = \<lparr>vec_data = \<lparr>rm_buffer = map Live xs, rm_capacity = n\<rparr>, vec_size = n\<rparr>"
    by (simp add: mk_vector_def n_def)
  have mk2: "mk_vector (take i xs @ x # drop i xs) m =
          \<lparr>vec_data = \<lparr>rm_buffer = map Live (take i xs) @ Live x # map Live (drop i xs) @ replicate m Raw,
                       rm_capacity = c\<rparr>, vec_size = n + 1\<rparr>"
    using sz cap' by (simp add: mk_vector_def)
  show ?thesis
    unfolding mg mk1 mk2 by (rule e)
qed

lemma Emplace_end:
  "Emplace E (length xs) arg (mk_vector xs k) = EmplaceBack E arg (mk_vector xs k)"
  by (simp add: Emplace_def mk_vector_def)

lemma Emplace_total:
  assumes "i \<le> length xs" "\<not> alloc_fails E (grown (length xs))" "nothrow_on E xs" "nothrow_on E [x]"
  shows "\<exists>k'. Emplace E i (Some x) (mk_vector xs k) = Return i (mk_vector (take i xs @ x # drop i xs) k')"
proof (cases "i = length xs")
  case True
  with EmplaceBack_total[OF assms(2) nothrow_on_transfer[OF assms(3)], of x k] show ?thesis
    by (auto simp: Emplace_end)
next
  case False
  with assms(1) have lt: "i < length xs" by simp
  show ?thesis
  proof (cases "k = 0")
    case True
    with Emplace_growth[OF lt assms(2) nothrow_on_transfer[OF assms(3)], of x] show ?thesis by auto
  next
    case False
    from lt have "last xs \<in> set xs" by (intro last_in_set) auto
    with assms(3) have "\<not> move_throws E (last xs)" "\<forall>y\<in>set xs. \<not> move_assign_throws E y"
      by (auto simp: nothrow_on_def list_all_iff)
    from Emplace_inplace[OF lt _ this, of k x] False nothrow_on_single[OF assms(4)] show ?thesis
      by auto
  qed
qed

lemma PopBack_mk:
  "PopBack \<lparr>vec_data = \<lparr>rm_buffer = map Live ys @ s # replicate k Raw, rm_capacity = Suc (length ys + k)\<rparr>,
            vec_size = Suc (length ys)\<rparr> =
     (if s = Raw then Undefined else Return () (mk_vector ys (Suc k)))"
proof -
  have "(map Live ys @ s # replicate k Raw) ! length ys = s"
    by (rule nth_mid) simp
  moreover have "(map Live ys @ s # replicate k Raw)[length ys := Raw] = map Live ys @ Raw # replicate k Raw"
    by (rule upd_mid) simp
  ultimately show ?thesis
    by (simp add: PopBack_def mk_vector_def Let_def)
qed

lemma Erase_Return:
  assumes "i < length xs" "\<forall>y\<in>set (drop (Suc i) xs). \<not> move_assign_throws E y"
  shows "Erase E i (mk_vector xs k) = Return i (mk_vector (take i xs @ drop (Suc i) xs) (Suc k))"
proof -
  define n where "n = length xs"
  define A where "A = map Live (take i xs)"
  define ys where "ys = drop (Suc i) xs"
  have xs: "xs = take i xs @ xs ! i # ys"
    using assms(1) by (simp add: ys_def id_take_nth_drop)
  have lA: "length A = i" using assms(1) by (simp add: A_def)
  have lys: "length ys = n - Suc i" by (simp add: ys_def n_def)
  have buf: "map Live xs @ replicate k Raw = A @ Live (xs ! i) # map Live ys @ replicate k Raw"
    by (subst xs) (simp add: A_def)
  have mv: "move_n E (A @ Live (xs ! i) # map Live ys @ replicate k Raw) (Suc i) i (length ys) =
     Return () (if ys = [] then A @ Live (xs ! i) # replicate k Raw
                else A @ map Live ys @ Live (moved_from E (last ys)) # replicate k Raw)"
    using lA assms(2) unfolding ys_def[symmetric] by (rule move_n_Return)
  define s where "s = (if ys = [] then Live (xs ! i) else Live (moved_from E (last ys)))"
  have mr: "move_range E (map Live xs @ replicate k Raw) (i + 1) n i =
              Return () (map Live (take i xs @ ys) @ s # replicate k Raw)"
    using assms(1) mv lys by (cases "ys = []") (simp_all add: move_range_def buf n_def s_def A_def)
  have l2: "Suc (length (take i xs @ ys)) = n" "Suc (length (take i xs @ ys) + k) = n + k"
    using assms(1) lys by (simp_all add: n_def)
  have "PopBack \<lparr>vec_data = \<lparr>rm_buffer = map Live (take i xs @ ys) @ s # replicate k Raw,
                   rm_capacity = Suc (length (take i xs @ ys) + k)\<rparr>,
            vec_size = Suc (length (take i xs @ ys))\<rparr> = Return () (mk_vector (take i xs @ ys) (Suc k))"
    by (subst PopBack_mk) (simp add: s_def)
  then have pb: "PopBack \<lparr>vec_data = \<lparr>rm_buffer = map Live (take i xs @ ys) @ s # replicate k Raw,
                   rm_capacity = n + k\<rparr>, vec_size = n\<rparr> = Return () (mk_vector (take i xs @ ys) (Suc k))"
    unfolding l2 .
  show ?thesis
    using assms(1) mr pb
    by (simp add: Erase_def mk_vector_def n_def[symmetric] ys_def[symmetric])
qed

section \<open>Copy construction and copy assignment on well-formed vectors\<close>

lemma mk_vector_fields [simp]:
  "vec_size (mk_vector xs k) = length xs"
  "rm_buffer (vec_data (mk_vector xs k)) = map Live xs @ replicate k Raw"
  "rm_capacity (vec_data (mk_vector xs k)) = length xs + k"
  by (simp_all add: mk_vector_def)

lemma Vector_dtor_mk: "Vector_dtor (mk_vector xs k) = Some (replicate (length xs) Raw @ replicate k Raw)"
  using destroy_n_live[of "[]" 0 "map Live xs" "replicate k Raw"]
  by (simp add: Vector_dtor_def mk_vector_def)

lemma Vector_copy_Return:
  assumes "\<not> alloc_fails E (length ys)" "\<forall>y\<in>set ys. \<not> copy_throws E y"
  shows "Vector_copy E (mk_vector ys j) = Return (mk_vector ys 0) ()"
proof -
  have "uninitialized_transfer_n (copy_throws E) (\<lambda>x. x) ([] @ map Live ys @ replicate j Raw) 0 (length ys)
          ([] @ replicate (length ys) Raw @ []) 0 =
        Return () ([] @ map (\<lambda>y. Live y) ys @ replicate j Raw, [] @ map Live ys @ [])"
    using assms(2) by (intro transfer_Return) simp_all
  then have t: "uninitialized_copy_n E (map Live ys @ replicate j Raw) 0 (length ys) (replicate (length ys) Raw) 0 =
        Return () (map Live ys @ replicate j Raw, map Live ys)"
    by (simp add: uninitialized_copy_n_def)
  with RawMemory_new_ok[OF assms(1)] show ?thesis
    by (simp add: Vector_copy_def Size_def mk_vector_def)
qed

lemma Vector_copy_not_Return:
  assumes "alloc_fails E (length ys) \<or> (\<exists>y\<in>set ys. copy_throws E y)"
  shows "Vector_copy E (mk_vector ys j) \<noteq> Return nv u"
proof
  assume r: "Vector_copy E (mk_vector ys j) = Return nv u"
  from RawMemory_new_cases[of E "length ys"] r
  obtain m where m: "m \<le> length ys"
    and nd: "RawMemory_new E (length ys) = Some \<lparr>rm_buffer = replicate m Raw, rm_capacity = length ys\<rparr>"
    by (auto simp: Vector_copy_def Size_def mk_vector_def)
  from r nd obtain s where
    t: "uninitialized_transfer_n (copy_throws E) (\<lambda>x. x) (map Live ys @ replicate j Raw) 0 (length ys)
          (replicate m Raw) 0 = Return () s"
    by (auto simp: Vector_copy_def Size_def mk_vector_def uninitialized_copy_n_def split: outcome.splits)
  from transfer_Return_bounds[OF t] m have mn: "m = length ys" by simp
  from RawMemory_new_full[OF nd[unfolded mn]] assms have "\<exists>y\<in>set ys. copy_throws E y" by simp
  then have "\<exists>s. uninitialized_transfer_n (copy_throws E) (\<lambda>x. x) ([] @ map Live ys @ replicate j Raw) 0 (length ys)
          ([] @ replicate (length ys) Raw @ []) 0 = Throw elem_exn s"
    by (intro transfer_Throw) simp_all
  with t mn show False by simp
qed

lemma copy_assign_grow_Return:
  assumes "length xs + k < length ys" "\<not> alloc_fails E (length ys)" "\<forall>y\<in>set ys. \<not> copy_throws E y"
  shows "copy_assign E (mk_vector xs k) (mk_vector ys j) = Return () (mk_vector ys 0)"
proof -
  have sw: "Vector_Swap (mk_vector xs k) (mk_vector ys 0) = (mk_vector ys 0, mk_vector xs k)"
    by (simp add: Vector_Swap_def RawMemory_Swap_def mk_vector_def)
  have sz: "vec_size (mk_vector ys j) = length ys" by (simp add: mk_vector_def)
  show ?thesis
    using assms(1) Vector_copy_Return[OF assms(2,3), of j]
    by (simp add: copy_assign_def sz sw Vector_dtor_mk)
qed

lemma copy_assign_grow_Throw:
  assumes "length xs + k < length ys"
  shows "copy_assign E (mk_vector xs k) (mk_vector ys j) = Throw e a' \<Longrightarrow> a' = mk_vector xs k"
proof -
  have sz: "vec_size (mk_vector ys j) = length ys" by (simp add: mk_vector_def)
  show "copy_assign E (mk_vector xs k) (mk_vector ys j) = Throw e a' \<Longrightarrow> a' = mk_vector xs k"
    using assms
    by (auto simp: copy_assign_def sz split: outcome.splits prod.splits option.splits)
qed

lemma copy_assign_grow_not_Return:
  assumes "length xs + k < length ys" "alloc_fails E (length ys) \<or> (\<exists>y\<in>set ys. copy_throws E y)"
  shows "copy_assign E (mk_vector xs k) (mk_vector ys j) \<noteq> Return u a'"
proof -
  have sz: "vec_size (mk_vector ys j) = length ys" by (simp add: mk_vector_def)
  from Vector_copy_not_Return[OF assms(2)] assms(1) show ?thesis
    by (auto simp: copy_assign_def sz split: outcome.splits)
qed

lemma copy_assign_prefix:
  assumes "n \<le> length xs" "n \<le> length ys"
  shows "(\<forall>y\<in>set (take n ys). \<not> copy_assign_throws E y) \<longrightarrow>
           copy_assign_loop E (map Live xs @ replicate k Raw) (map Live ys @ replicate j Raw) 0 n =
             Return () (map Live (take n ys) @ map Live (drop n xs) @ replicate k Raw)"
    and "(\<exists>y\<in>set (take n ys). copy_assign_throws E y) \<longrightarrow>
           (\<exists>b. copy_assign_loop E (map Live xs @ replicate k Raw) (map Live ys @ replicate j Raw) 0 n =
             Throw elem_exn b)"
proof -
  have x: "map Live xs @ replicate k Raw = [] @ map Live (take n xs) @ (map Live (drop n xs) @ replicate k Raw)"
    by (simp flip: map_append)
  have y: "map Live ys @ replicate j Raw = [] @ map Live (take n ys) @ (map Live (drop n ys) @ replicate j Raw)"
    by (simp flip: map_append)
  have l: "length (take n xs) = length (take n ys)" "length (take n ys) = n"
    using assms by simp_all
  show "(\<forall>y\<in>set (take n ys). \<not> copy_assign_throws E y) \<longrightarrow>
           copy_assign_loop E (map Live xs @ replicate k Raw) (map Live ys @ replicate j Raw) 0 n =
             Return () (map Live (take n ys) @ map Live (drop n xs) @ replicate k Raw)"
  proof
    assume nt: "\<forall>y\<in>set (take n ys). \<not> copy_assign_throws E y"
    have "copy_assign_loop E ([] @ map Live (take n xs) @ (map Live (drop n xs) @ replicate k Raw))
            ([] @ map Live (take n ys) @ (map Live (drop n ys) @ replicate j Raw)) 0 (length (take n ys)) =
          Return () ([] @ map Live (take n ys) @ (map Live (drop n xs) @ replicate k Raw))"
      using l(1) nt by (intro copy_assign_loop_Return) simp_all
    then show "copy_assign_loop E (map Live xs @ replicate k Raw) (map Live ys @ replicate j Raw) 0 n =
             Return () (map Live (take n ys) @ map Live (drop n xs) @ replicate k Raw)"
      unfolding x[symmetric] y[symmetric] l(2) by simp
  qed
  show "(\<exists>y\<in>set (take n ys). copy_assign_throws E y) \<longrightarrow>
           (\<exists>b. copy_assign_loop E (map Live xs @ replicate k Raw) (map Live ys @ replicate j Raw) 0 n =
             Throw elem_exn b)"
  proof
    assume t: "\<exists>y\<in>set (take n ys). copy_assign_throws E y"
    have "\<exists>b. copy_assign_loop E ([] @ map Live (take n xs) @ (map Live (drop n xs) @ replicate k Raw))
            ([] @ map Live (take n ys) @ (map Live (drop n ys) @ replicate j Raw)) 0 (length (take n ys)) =
          Throw elem_exn b"
      using l(1) t by (intro copy_assign_loop_Throw) simp_all
    then show "\<exists>b. copy_assign_loop E (map Live xs @ replicate k Raw) (map Live ys @ replicate j Raw) 0 n =
             Throw elem_exn b"
      unfolding x[symmetric] y[symmetric] l(2) by simp
  qed
qed

lemma copy_assign_rest:
  fixes xs ys :: "'a list" and E :: "'a env"
  assumes "length xs < length ys" "length ys \<le> length xs + k"
  shows "(\<forall>y\<in>set (drop (length xs) ys). \<not> copy_throws E y) \<longrightarrow>
           uninitialized_copy_n E (map Live ys @ replicate j Raw) (length xs) (length ys - length xs)
             (map Live (take (length xs) ys) @ replicate k Raw) (length xs) =
           Return () (map Live ys @ replicate j Raw, map Live ys @ replicate (length xs + k - length ys) Raw)"
    and "(\<exists>y\<in>set (drop (length xs) ys). copy_throws E y) \<longrightarrow>
           (\<exists>s. uninitialized_copy_n E (map Live ys @ replicate j Raw) (length xs) (length ys - length xs)
             (map Live (take (length xs) ys) @ replicate k Raw) (length xs) = Throw elem_exn s)"
proof -
  let ?n = "length xs"
  let ?A = "map Live (take ?n ys)"
  let ?r = "drop ?n ys"
  let ?D = "replicate (length ys - ?n) (Raw :: 'a slot)"
  let ?F = "replicate (?n + k - length ys) (Raw :: 'a slot)"
  have src: "map Live ys @ replicate j Raw = ?A @ map Live ?r @ replicate j Raw"
    by (simp flip: map_append)
  have "replicate k (Raw :: 'a slot) = replicate (length ys - ?n) Raw @ replicate (k - (length ys - ?n)) Raw"
    using assms by (intro replicate_split) simp
  moreover have "k - (length ys - ?n) = ?n + k - length ys"
    using assms by simp
  ultimately have dst: "?A @ replicate k Raw = ?A @ ?D @ ?F"
    by simp
  have l: "length ?A = ?n" "length ?D = length ?r" "length ?r = length ys - ?n"
    using assms by simp_all
  show "(\<forall>y\<in>set (drop (length xs) ys). \<not> copy_throws E y) \<longrightarrow>
           uninitialized_copy_n E (map Live ys @ replicate j Raw) (length xs) (length ys - length xs)
             (map Live (take (length xs) ys) @ replicate k Raw) (length xs) =
           Return () (map Live ys @ replicate j Raw, map Live ys @ replicate (length xs + k - length ys) Raw)"
  proof
    assume nt: "\<forall>y\<in>set ?r. \<not> copy_throws E y"
    have "uninitialized_transfer_n (copy_throws E) (\<lambda>x. x) (?A @ map Live ?r @ replicate j Raw) ?n (length ?r)
            (?A @ ?D @ ?F) ?n =
          Return () (?A @ map (\<lambda>y. Live y) ?r @ replicate j Raw, ?A @ map Live ?r @ ?F)"
      using l(1) l(1) l(2) nt by (rule transfer_Return)
    then show "uninitialized_copy_n E (map Live ys @ replicate j Raw) ?n (length ys - ?n) (?A @ replicate k Raw) ?n =
           Return () (map Live ys @ replicate j Raw, map Live ys @ ?F)"
      unfolding uninitialized_copy_n_def dst src[symmetric] l(3)
      by (simp flip: map_append)
  qed
  show "(\<exists>y\<in>set (drop (length xs) ys). copy_throws E y) \<longrightarrow>
           (\<exists>s. uninitialized_copy_n E (map Live ys @ replicate j Raw) (length xs) (length ys - length xs)
             (map Live (take (length xs) ys) @ replicate k Raw) (length xs) = Throw elem_exn s)"
  proof
    assume t: "\<exists>y\<in>set ?r. copy_throws E y"
    have "\<exists>s. uninitialized_transfer_n (copy_throws E) (\<lambda>x. x) (?A @ map Live ?r @ replicate j Raw) ?n (length ?r)
            (?A @ ?D @ ?F) ?n = Throw elem_exn s"
      using l(1) l(1) l(2) t by (rule transfer_Throw)
    then show "\<exists>s. uninitialized_copy_n E (map Live ys @ replicate j Raw) ?n (length ys - ?n) (?A @ replicate k Raw) ?n =
           Throw elem_exn s"
      unfolding uninitialized_copy_n_def dst src[symmetric] l(3) .
  qed
qed

lemma copy_assign_inplace_Return:
  assumes "length ys \<le> length xs + k"
    "\<forall>y\<in>set (take (min (length ys) (length xs)) ys). \<not> copy_assign_throws E y"
    "\<forall>y\<in>set (drop (length xs) ys). \<not> copy_throws E y"
  shows "copy_assign E (mk_vector xs k) (mk_vector ys j) = Return () (mk_vector ys (length xs + k - length ys))"
proof (cases "length xs < length ys")
  case True
  then have m: "min (length ys) (length xs) = length xs" by simp
  have p: "copy_assign_loop E (map Live xs @ replicate k Raw) (map Live ys @ replicate j Raw) 0 (length xs) =
             Return () (map Live (take (length xs) ys) @ replicate k Raw)"
    using copy_assign_prefix(1)[of "length xs" xs ys E k j] True assms(2) by (simp add: m)
  have r: "uninitialized_copy_n E (map Live ys @ replicate j Raw) (length xs) (length ys - length xs)
             (map Live (take (length xs) ys) @ replicate k Raw) (length xs) =
           Return () (map Live ys @ replicate j Raw, map Live ys @ replicate (length xs + k - length ys) Raw)"
    using copy_assign_rest(1)[OF True assms(1), of E j] assms(3) by simp
  show ?thesis
    using True assms(1) p r
    by (simp add: copy_assign_def Capacity_def m mk_vector_def)
next
  case False
  then have m: "min (length ys) (length xs) = length ys" by simp
  have p: "copy_assign_loop E (map Live xs @ replicate k Raw) (map Live ys @ replicate j Raw) 0 (length ys) =
             Return () (map Live ys @ map Live (drop (length ys) xs) @ replicate k Raw)"
    using copy_assign_prefix(1)[of "length ys" xs ys E k j] False assms(2) by (simp add: m)
  have "destroy_n (map Live ys @ map Live (drop (length ys) xs) @ replicate k Raw) (length ys)
          (length (map Live (drop (length ys) xs))) =
        Some (map Live ys @ replicate (length (map Live (drop (length ys) xs))) Raw @ replicate k Raw)"
    by (intro destroy_n_live) simp_all
  then have d: "destroy_n (map Live ys @ map Live (drop (length ys) xs) @ replicate k Raw) (length ys)
          (length xs - length ys) =
        Some (map Live ys @ replicate (length xs + k - length ys) Raw)"
    using False by (simp add: replicate_add[symmetric])
  show ?thesis
    using False assms(1) p d
    by (simp add: copy_assign_def Capacity_def m mk_vector_def)
qed

lemma copy_assign_inplace_Throw:
  assumes "length ys \<le> length xs + k"
    "(\<exists>y\<in>set (take (min (length ys) (length xs)) ys). copy_assign_throws E y) \<or>
     (\<exists>y\<in>set (drop (length xs) ys). copy_throws E y)"
  shows "\<exists>e a'. copy_assign E (mk_vector xs k) (mk_vector ys j) = Throw e a'"
proof (cases "\<exists>y\<in>set (take (min (length ys) (length xs)) ys). copy_assign_throws E y")
  case True
  from copy_assign_prefix(2)[of "min (length ys) (length xs)" xs ys E k j] True
  obtain b where "copy_assign_loop E (map Live xs @ replicate k Raw) (map Live ys @ replicate j Raw) 0
      (min (length ys) (length xs)) = Throw elem_exn b"
    by auto
  then show ?thesis
    using assms(1) by (simp add: copy_assign_def Capacity_def)
next
  case False
  with assms(2) have t: "\<exists>y\<in>set (drop (length xs) ys). copy_throws E y" by simp
  then have lt: "length xs < length ys" by (cases "length xs < length ys") auto
  then have m: "min (length ys) (length xs) = length xs" by simp
  have p: "copy_assign_loop E (map Live xs @ replicate k Raw) (map Live ys @ replicate j Raw) 0 (length xs) =
             Return () (map Live (take (length xs) ys) @ replicate k Raw)"
    using copy_assign_prefix(1)[of "length xs" xs ys E k j] lt False by (simp add: m)
  from copy_assign_rest(2)[OF lt assms(1), of E j] t
  obtain s where "uninitialized_copy_n E (map Live ys @ replicate j Raw) (length xs) (length ys - length xs)
             (map Live (take (length xs) ys) @ replicate k Raw) (length xs) = Throw elem_exn s"
    by auto
  then show ?thesis
    using lt assms(1) p by (cases s) (simp add: copy_assign_def Capacity_def m)
qed

lemma copy_assign_Return_mk:
  assumes "copy_assign E (mk_vector xs k) (mk_vector ys j) = Return u a'"
  shows "a' = mk_vector ys (if length xs + k < length ys then 0 else length xs + k - length ys)"
proof (cases "length xs + k < length ys")
  case True
  show ?thesis
  proof (cases "alloc_fails E (length ys) \<or> (\<exists>y\<in>set ys. copy_throws E y)")
    case f: True
    from copy_assign_grow_not_Return[OF True f, where j = j and u = u and a' = a'] assms
    show ?thesis by simp
  next
    case False
    with copy_assign_grow_Return[OF True, of E j] assms True show ?thesis by auto
  qed
next
  case False
  then have le: "length ys \<le> length xs + k" by simp
  show ?thesis
  proof (cases "(\<exists>y\<in>set (take (min (length ys) (length xs)) ys). copy_assign_throws E y) \<or>
     (\<exists>y\<in>set (drop (length xs) ys). copy_throws E y)")
    case True
    from copy_assign_inplace_Throw[OF le True, of j] assms show ?thesis by auto
  next
    case nt: False
    with copy_assign_inplace_Return[OF le, of E j] assms False show ?thesis by auto
  qed
qed

lemma RawMemory_eta: "\<lparr>rm_buffer = rm_buffer d, rm_capacity = rm_capacity d\<rparr> = (d :: 'a RawMemory)"
  by (cases d) simp

lemma Vector_eta: "\<lparr>vec_data = vec_data v, vec_size = vec_size v\<rparr> = (v :: 'a Vector)"
  by (cases v) simp

section \<open>Exceptions that leave Emplace at a full vector\<close>

text \<open>
  When the transfer copies, or moves with a move constructor that never throws, an
  exception that propagates out of \<open>EmplaceBack\<close>, or out of \<open>Emplace\<close> on a full vector,
  leaves the vector as it was.
\<close>

lemma transfer_copy_Throw_src:
  "uninitialized_transfer_n thr (\<lambda>x. x) src i n dst d = Throw e (s', d') \<Longrightarrow> s' = src"
proof (induction n arbitrary: src i dst d s' d')
  case 0
  then show ?case by simp
next
  case (Suc n)
  from Suc.prems obtain x where x: "src ! i = Live x" and r: "i < length src"
    by (auto split: if_splits slot.splits)
  have id: "src[i := Live x] = src"
    using x by (metis list_update_id)
  from Suc.prems x r id show ?case
    by (auto split: if_splits outcome.splits prod.splits dest: Suc.IH)
qed

lemma transfer_nothrow_no_Throw:
  "\<forall>x. \<not> thr x \<Longrightarrow> uninitialized_transfer_n thr mf src i n dst d \<noteq> Throw e s"
proof (induction n arbitrary: src i dst d s)
  case 0
  then show ?case by simp
next
  case (Suc n)
  then show ?case
    by (auto split: if_splits slot.splits outcome.splits prod.splits)
qed

lemma ReplaceOrCopyData_Throw_src:
  assumes "nothrow_move_constructible E \<or> \<not> copy_constructible E \<longrightarrow> (\<forall>x. \<not> move_throws E x)"
    and "ReplaceOrCopyData E old i n new d = Throw e (s', d')"
  shows "s' = old"
proof (cases "nothrow_move_constructible E \<or> \<not> copy_constructible E")
  case True
  with assms(1) have "\<forall>x. \<not> move_throws E x" by simp
  from transfer_nothrow_no_Throw[OF this, of "moved_from E" old i n new d e "(s', d')"] assms(2) True
  show ?thesis
    by (auto simp: ReplaceOrCopyData_def uninitialized_move_n_def split: outcome.splits prod.splits option.splits)
next
  case False
  with assms(2) have "uninitialized_transfer_n (copy_throws E) (\<lambda>x. x) old i n new d = Throw e (s', d')"
    by (auto simp: ReplaceOrCopyData_def uninitialized_copy_n_def split: outcome.splits prod.splits option.splits)
  then show ?thesis by (rule transfer_copy_Throw_src)
qed

lemma EmplaceBack_Throw_unchanged:
  assumes "nothrow_move_constructible E \<or> \<not> copy_constructible E \<longrightarrow> (\<forall>x. \<not> move_throws E x)"
    and "EmplaceBack E arg v = Throw e v'"
  shows "v' = v"
  using assms(2) ReplaceOrCopyData_Throw_src[OF assms(1)]
  by (auto simp: EmplaceBack_def RawMemory_eta Vector_eta
      split: if_splits option.splits outcome.splits prod.splits)

lemma Emplace_growth_Throw_unchanged:
  assumes "nothrow_move_constructible E \<or> \<not> copy_constructible E \<longrightarrow> (\<forall>x. \<not> move_throws E x)"
    and "Size v = Capacity v" and "Emplace E i arg v = Throw e v'"
  shows "v' = v"
proof (cases "i = vec_size v")
  case True
  with assms(3) have "EmplaceBack E arg v = Throw e v'"
    by (simp add: Emplace_def split: if_splits)
  with assms(1) show ?thesis by (rule EmplaceBack_Throw_unchanged)
next
  case False
  with assms(2,3) ReplaceOrCopyData_Throw_src[OF assms(1)] show ?thesis
    by (auto simp: Emplace_def Size_def RawMemory_eta Vector_eta
        split: if_splits option.splits outcome.splits prod.splits)
qed

section \<open>Emplace on the growth path when the transfer of the suffix fails\<close>

text \<open>
  Claim C1 (strong guarantee of \<open>Emplace\<close> with growth). The element type is the probe
  whose copy constructor throws on the value \<open>2\<close>; the vector holds \<open>[1, 2]\<close> and is full;
  \<open>9\<close> is emplaced at index \<open>0\<close>. Copying the suffix throws at its second element. The handler
  of the second \<^verbatim>\<open>try\<close> destroys the new element and does not rethrow: the call returns
  normally, with the new block swapped in, no live object in it, and \<open>size_\<close> incremented
  to \<open>3\<close>.
\<close>

theorem Emplace_growth_suffix_failure:
  "Emplace (probe_env 2) 0 (Some 9) (mk_vector [1, 2] 0) =
     Return 0 \<lparr>vec_data = \<lparr>rm_buffer = [Raw, Raw, Raw, Raw], rm_capacity = 4\<rparr>, vec_size = 3\<rparr>"
  by code_simp

section \<open>Self-assignment\<close>

text \<open>
  Claim C10. Copy-assigning and move-assigning the vector at address \<open>p\<close> to itself return
  \<open>*this\<close> and leave the store, hence the vector's size, capacity and elements, as they
  were.
\<close>

theorem self_assignment_noop:
  "\<sigma> p = Some v \<Longrightarrow>
   operator_assign_copy E p p \<sigma> = Return p \<sigma> \<and> operator_assign_move p p \<sigma> = Return p \<sigma>"
  by (simp add: operator_assign_copy_def operator_assign_move_def)

theorem self_assignment_noop_witness:
  "[0 \<mapsto> mk_vector [1, 2 :: int] 1] 0 = Some (mk_vector [1, 2] 1) \<and>
   operator_assign_copy int_env 0 0 [0 \<mapsto> mk_vector [1, 2] 1] = Return 0 [0 \<mapsto> mk_vector [1, 2] 1] \<and>
   operator_assign_move 0 0 [0 \<mapsto> mk_vector [1, 2 :: int] 1] = Return 0 [0 \<mapsto> mk_vector [1, 2] 1]"
  using self_assignment_noop [of "[0 \<mapsto> mk_vector [1, 2] 1]" 0 "mk_vector [1, 2] 1" int_env]
  by simp

section \<open>Sequences of PushBack and EmplaceBack\<close>

text \<open>
  Claim C3. Starting from the empty vector, when a sequence of \<open>N\<close> calls of \<open>PushBack\<close> and
  \<open>EmplaceBack\<close> has returned, \<open>Size()\<close> is \<open>N\<close> and the element at each index \<open>i < N\<close> is the
  value of the \<open>i\<close>-th call. The sequence does return when no allocation of at most \<open>2 * N\<close>
  elements fails (the capacities requested are \<open>1, 2, 4, \<dots>\<close>, each below \<open>2 * N\<close>) and no
  operation of the element type throws on the values pushed. \<open>EmplaceBack\<close> on a
  well-formed vector returns the position of the new element: the old size, where the
  vector now holds the value constructed.
\<close>

theorem push_sequence:
  "(\<forall>v. push_all E cs Vector_default = Return () v \<longrightarrow>
        Size v = length cs \<and> (\<forall>i<length cs. at v i = Some (call_value (cs ! i)))) \<and>
   ((\<forall>n\<le>2 * length cs. \<not> alloc_fails E n) \<and> nothrow_on E (map call_value cs) \<longrightarrow>
        (\<exists>v. push_all E cs Vector_default = Return () v)) \<and>
   (\<forall>x v0 r v1. valid v0 \<and> EmplaceBack E (Some x) v0 = Return r v1 \<longrightarrow>
        r = Size v0 \<and> at v1 r = Some x)"
proof (intro conjI allI impI)
  fix v assume "push_all E cs Vector_default = Return () v"
  then obtain j n where v: "v = mk_block (map call_value cs) j n" and n: "length cs \<le> n"
    using push_all_Return_block[of E cs "[]" 0 0 "()" v] by (auto simp: Vector_default_block)
  show "Size v = length cs" by (simp add: v)
  show "at v i = Some (call_value (cs ! i))" if "i < length cs" for i
    using that n by (simp add: v at_mk_block)
next
  assume "(\<forall>n\<le>2 * length cs. \<not> alloc_fails E n) \<and> nothrow_on E (map call_value cs)"
  then show "\<exists>v. push_all E cs Vector_default = Return () v"
    using push_all_total[where E = E and xs = "[]" and cs = cs and k = 0]
    by (auto simp: Vector_default_mk nothrow_on_def)
next
  fix x v0 r v1 assume a: "valid v0 \<and> EmplaceBack E (Some x) v0 = Return r v1"
  then have v0: "v0 = mk_vector (elements v0) (Capacity v0 - Size v0)"
    using valid_is_mk_vector by blast
  from a have "EmplaceBack E (Some x) (mk_vector (elements v0) (Capacity v0 - Size v0)) = Return r v1"
    using v0 by simp
  from EmplaceBack_block[OF this[unfolded mk_vector_block]]
  obtain j n where r: "r = length (elements v0)"
    and v1: "v1 = mk_block (elements v0 @ [x]) j n" and n: "length (elements v0) < n" by auto
  have s: "Size v0 = length (elements v0)"
    by (subst v0) simp
  show "r = Size v0" using r s by simp
  show "at v1 r = Some x" using n by (simp add: v1 r at_mk_block)
qed

theorem push_sequence_witness:
  "push_all int_env [Push 1, Emplace_back 2, Push_rvalue 3] Vector_default = Return () (mk_vector [1, 2, 3] 1) \<and>
   Size (mk_vector [1, 2, 3 :: int] 1) = 3 \<and>
   at (mk_vector [1, 2, 3 :: int] 1) 0 = Some 1 \<and>
   at (mk_vector [1, 2, 3 :: int] 1) 1 = Some 2 \<and>
   at (mk_vector [1, 2, 3 :: int] 1) 2 = Some 3 \<and>
   list_all (\<lambda>n. \<not> alloc_fails int_env n) [0..<7] \<and> nothrow_on int_env [1, 2, 3] \<and>
   valid (mk_vector [1, 2 :: int] 0) \<and>
   EmplaceBack int_env (Some 3) (mk_vector [1, 2] 0) = Return 2 (mk_vector [1, 2, 3] 1)"
proof -
  have e: "push_all int_env [Push 1, Emplace_back 2, Push_rvalue 3] Vector_default = Return () (mk_vector [1, 2, 3] 1)"
    by code_simp
  have e2: "EmplaceBack int_env (Some 3) (mk_vector [1, 2] 0) = Return 2 (mk_vector [1, 2, 3] 1)"
    by code_simp
  have "\<not> alloc_fails int_env n" if "n \<le> 6" for n
    using that by (intro int_env_alloc) simp
  moreover have "nothrow_on int_env [1, 2, 3]"
    by (simp add: int_env_def nothrow_on_def)
  ultimately have h: "(\<forall>n\<le>2 * length [Push 1, Emplace_back 2, Push_rvalue (3 :: int)]. \<not> alloc_fails int_env n) \<and>
      nothrow_on int_env [1, 2, 3]"
    by simp
  have va: "valid (mk_vector [1, 2 :: int] 0)" by code_simp
  from push_sequence [of int_env "[Push 1, Emplace_back 2, Push_rvalue 3]"] e
  have "Size (mk_vector [1, 2, 3 :: int] 1) = 3 \<and>
        (\<forall>i<3. at (mk_vector [1, 2, 3 :: int] 1) i = Some (call_value ([Push 1, Emplace_back 2, Push_rvalue 3] ! i)))"
    by simp
  then have "Size (mk_vector [1, 2, 3 :: int] 1) = 3 \<and>
   at (mk_vector [1, 2, 3 :: int] 1) 0 = Some 1 \<and>
   at (mk_vector [1, 2, 3 :: int] 1) 1 = Some 2 \<and>
   at (mk_vector [1, 2, 3 :: int] 1) 2 = Some 3"
    by (simp add: All_less_Suc numeral_3_eq_3 numeral_2_eq_2)
  moreover have "list_all (\<lambda>n. \<not> alloc_fails int_env n) [0..<7]"
    by (simp add: list_all_iff int_env_alloc)
  ultimately show ?thesis using e e2 h va by simp
qed

section \<open>Growth of the capacity on a push\<close>

text \<open>
  Claim C4. When \<open>EmplaceBack\<close> or \<open>PushBack\<close> returns, the capacity is twice the old one if
  the vector was full (\<open>1\<close> if the old capacity was \<open>0\<close>) and the old one otherwise. On a
  well-formed vector the call does return when the allocation of the new block does not
  fail (\<open>operator new\<close> does not throw and the byte count fits \<open>size_t\<close>) and the transfer of
  the elements does not throw.
\<close>

theorem push_capacity:
  "(\<forall>r v'. EmplaceBack E arg v = Return r v' \<longrightarrow>
      Capacity v' = (if Size v = Capacity v then (if Capacity v = 0 then 1 else 2 * Capacity v) else Capacity v)) \<and>
   (\<forall>u v'. PushBack E x v = Return u v' \<longrightarrow>
      Capacity v' = (if Size v = Capacity v then (if Capacity v = 0 then 1 else 2 * Capacity v) else Capacity v)) \<and>
   (\<forall>u v'. PushBack_move E x v = Return u v' \<longrightarrow>
      Capacity v' = (if Size v = Capacity v then (if Capacity v = 0 then 1 else 2 * Capacity v) else Capacity v)) \<and>
   (valid v \<and> \<not> alloc_fails E (if Capacity v = 0 then 1 else 2 * Capacity v) \<and>
      list_all (\<lambda>y. \<not> transfer_throws E y) (elements v) \<longrightarrow>
      (\<exists>v'. EmplaceBack E (Some x) v = Return (Size v) v'))"
proof (intro conjI allI impI)
  fix r v' assume "EmplaceBack E arg v = Return r v'"
  then show "Capacity v' = (if Size v = Capacity v then (if Capacity v = 0 then 1 else 2 * Capacity v) else Capacity v)"
    by (rule EmplaceBack_capacity)
next
  fix u v' assume "PushBack E x v = Return u v'"
  then obtain r where "EmplaceBack E (copy_of E x) v = Return r v'"
    by (auto simp: PushBack_def split: outcome.splits)
  then show "Capacity v' = (if Size v = Capacity v then (if Capacity v = 0 then 1 else 2 * Capacity v) else Capacity v)"
    by (rule EmplaceBack_capacity)
next
  fix u v' assume "PushBack_move E x v = Return u v'"
  then obtain r where "EmplaceBack E (move_of E x) v = Return r v'"
    by (auto simp: PushBack_move_def split: outcome.splits)
  then show "Capacity v' = (if Size v = Capacity v then (if Capacity v = 0 then 1 else 2 * Capacity v) else Capacity v)"
    by (rule EmplaceBack_capacity)
next
  assume a: "valid v \<and> \<not> alloc_fails E (if Capacity v = 0 then 1 else 2 * Capacity v) \<and>
      list_all (\<lambda>y. \<not> transfer_throws E y) (elements v)"
  define xs where "xs = elements v"
  define k where "k = Capacity v - Size v"
  from a have v: "v = mk_vector xs k"
    unfolding xs_def k_def using valid_is_mk_vector by blast
  from a have nt: "\<forall>y\<in>set xs. \<not> transfer_throws E y"
    by (simp add: xs_def list_all_iff)
  show "\<exists>v'. EmplaceBack E (Some x) v = Return (Size v) v'"
  proof (cases "k = 0")
    case True
    have "Capacity v = length xs"
      by (simp add: v True)
    with a have "\<not> alloc_fails E (grown (length xs))"
      by (cases "xs = []") (simp_all add: grown_def mult.commute)
    from EmplaceBack_full_Return[OF this nt, of x] True show ?thesis
      by (auto simp: v)
  next
    case False
    with EmplaceBack_spare[of k E x xs] show ?thesis by (auto simp: v)
  qed
qed

theorem push_capacity_witness:
  "EmplaceBack int_env (Some 3) (mk_vector [1, 2] 0) = Return 2 (mk_vector [1, 2, 3] 1) \<and>
   Size (mk_vector [1, 2 :: int] 0) = Capacity (mk_vector [1, 2 :: int] 0) \<and>
   Capacity (mk_vector [1, 2, 3 :: int] 1) = 2 * Capacity (mk_vector [1, 2 :: int] 0) \<and>
   PushBack int_env 1 Vector_default = Return () (mk_vector [1] 0) \<and>
   Capacity (Vector_default :: int Vector) = 0 \<and> Capacity (mk_vector [1 :: int] 0) = 1 \<and>
   PushBack_move int_env 3 (mk_vector [1, 2] 2) = Return () (mk_vector [1, 2, 3] 1) \<and>
   Size (mk_vector [1, 2 :: int] 2) < Capacity (mk_vector [1, 2 :: int] 2) \<and>
   Capacity (mk_vector [1, 2, 3 :: int] 1) = Capacity (mk_vector [1, 2 :: int] 2) \<and>
   valid (mk_vector [1, 2 :: int] 0) \<and> \<not> alloc_fails int_env 4 \<and>
   list_all (\<lambda>y. \<not> transfer_throws int_env y) (elements (mk_vector [1, 2 :: int] 0))"
proof -
  have e1: "EmplaceBack int_env (Some 3) (mk_vector [1, 2] 0) = Return 2 (mk_vector [1, 2, 3] 1)"
    by code_simp
  have e2: "PushBack int_env 1 Vector_default = Return () (mk_vector [1] 0)"
    by code_simp
  have e3: "PushBack_move int_env 3 (mk_vector [1, 2] 2) = Return () (mk_vector [1, 2, 3] 1)"
    by code_simp
  have h: "valid (mk_vector [1, 2 :: int] 0) \<and> \<not> alloc_fails int_env 4 \<and>
      list_all (\<lambda>y. \<not> transfer_throws int_env y) (elements (mk_vector [1, 2 :: int] 0))"
    by (simp add: int_env_def transfer_throws_def alloc_fails_def Allocate_def size_t_mult_mod)
  have c0: "Capacity (Vector_default :: int Vector) = 0"
    by (simp add: Vector_default_mk)
  from push_capacity [of int_env "Some 3" "mk_vector [1, 2] 0" 3] e1
  have "Capacity (mk_vector [1, 2, 3 :: int] 1) = 2 * Capacity (mk_vector [1, 2 :: int] 0)"
    by simp
  with e1 e2 e3 h c0 show ?thesis by simp
qed

section \<open>Reserve\<close>




section \<open>Resize\<close>




section \<open>Insert and Erase\<close>

text \<open>
  The calls in which nothing throws. On a well-formed vector, with an element type none of
  whose operations throws on the values involved and an allocation that does not fail:
  \<open>Insert\<close> at a position \<open>p \<le> size\<close> returns that position and leaves the elements before
  \<open>p\<close>, the new value, and the elements from \<open>p\<close> on, in their order; \<open>Erase\<close> at \<open>q < size\<close>
  returns \<open>q\<close> and leaves the elements before \<open>q\<close> followed by those after \<open>q\<close>; and \<open>Erase\<close>
  at \<open>p\<close> right after \<open>Insert\<close> at \<open>p\<close> gives back the original sequence.
\<close>

lemma Insert_Erase_nothrow:
  "valid v \<and> nothrow_on E (x # elements v) \<and> \<not> alloc_fails E (grown (Size v)) \<longrightarrow>
     (\<forall>p\<le>Size v. \<exists>v1 v2.
        Insert E p x v = Return p v1 \<and> valid v1 \<and>
        elements v1 = take p (elements v) @ x # drop p (elements v) \<and>
        Erase E p v1 = Return p v2 \<and> valid v2 \<and> elements v2 = elements v) \<and>
     (\<forall>p\<le>Size v. \<exists>v1.
        Insert_move E p x v = Return p v1 \<and> valid v1 \<and>
        elements v1 = take p (elements v) @ x # drop p (elements v)) \<and>
     (\<forall>q<Size v. \<exists>v3.
        Erase E q v = Return q v3 \<and> valid v3 \<and>
        elements v3 = take q (elements v) @ drop (Suc q) (elements v))"
proof (intro impI)
  assume a: "valid v \<and> nothrow_on E (x # elements v) \<and> \<not> alloc_fails E (grown (Size v))"
  define xs where "xs = elements v"
  define k where "k = Capacity v - Size v"
  from a have v: "v = mk_vector xs k"
    unfolding xs_def k_def using valid_is_mk_vector by blast
  from a have nx: "nothrow_on E [x]" and nxs: "nothrow_on E xs"
    by (simp_all add: nothrow_on_def xs_def)
  from a have al: "\<not> alloc_fails E (grown (length xs))" by (simp add: v)
  have ma: "\<forall>y\<in>set xs. \<not> move_assign_throws E y"
    using nxs by (simp add: nothrow_on_def list_all_iff)
  have ins: "\<exists>k'. Emplace E p (Some x) v = Return p (mk_vector (take p xs @ x # drop p xs) k')"
    if "p \<le> Size v" for p
    using that Emplace_total[OF _ al nxs nx, of p k] by (simp add: v)
  have A: "\<exists>v1 v2. Insert E p x v = Return p v1 \<and> valid v1 \<and>
        elements v1 = take p (elements v) @ x # drop p (elements v) \<and>
        Erase E p v1 = Return p v2 \<and> valid v2 \<and> elements v2 = elements v"
    if p: "p \<le> Size v" for p
  proof -
    from ins[OF p] obtain k' where i: "Emplace E p (Some x) v = Return p (mk_vector (take p xs @ x # drop p xs) k')"
      by blast
    let ?ys = "take p xs @ x # drop p xs"
    from p have pl: "p \<le> length xs" by (simp add: v)
    then have lt: "p < length ?ys" by simp
    have d: "drop (Suc p) ?ys = drop p xs" and t: "take p ?ys = take p xs"
      using pl by simp_all
    have "\<forall>y\<in>set (drop (Suc p) ?ys). \<not> move_assign_throws E y"
      unfolding d using ma by (auto dest: in_set_dropD)
    from Erase_Return[OF lt this, of k']
    have "Erase E p (mk_vector ?ys k') = Return p (mk_vector (take p ?ys @ drop (Suc p) ?ys) (Suc k'))" .
    then have e: "Erase E p (mk_vector ?ys k') = Return p (mk_vector xs (Suc k'))"
      unfolding d t by simp
    have "Insert E p x v = Return p (mk_vector ?ys k')"
      using i nothrow_on_single[OF nx] by (simp add: Insert_def)
    with e show ?thesis
      by (intro exI[of _ "mk_vector ?ys k'"] exI[of _ "mk_vector xs (Suc k')"]) (simp add: v)
  qed
  have B: "\<exists>v1. Insert_move E p x v = Return p v1 \<and> valid v1 \<and>
        elements v1 = take p (elements v) @ x # drop p (elements v)"
    if p: "p \<le> Size v" for p
  proof -
    from ins[OF p] obtain k' where "Emplace E p (Some x) v = Return p (mk_vector (take p xs @ x # drop p xs) k')"
      by blast
    then have "Insert_move E p x v = Return p (mk_vector (take p xs @ x # drop p xs) k')"
      using nothrow_on_single[OF nx] by (simp add: Insert_move_def)
    then show ?thesis by (simp add: v)
  qed
  have C: "\<exists>v3. Erase E q v = Return q v3 \<and> valid v3 \<and>
        elements v3 = take q (elements v) @ drop (Suc q) (elements v)"
    if q: "q < Size v" for q
  proof -
    from q have lt: "q < length xs" by (simp add: v)
    have "\<forall>y\<in>set (drop (Suc q) xs). \<not> move_assign_throws E y"
      using ma by (auto dest: in_set_dropD)
    from Erase_Return[OF lt this, of k] show ?thesis by (simp add: v)
  qed
  from A B C show "(\<forall>p\<le>Size v. \<exists>v1 v2.
        Insert E p x v = Return p v1 \<and> valid v1 \<and>
        elements v1 = take p (elements v) @ x # drop p (elements v) \<and>
        Erase E p v1 = Return p v2 \<and> valid v2 \<and> elements v2 = elements v) \<and>
     (\<forall>p\<le>Size v. \<exists>v1.
        Insert_move E p x v = Return p v1 \<and> valid v1 \<and>
        elements v1 = take p (elements v) @ x # drop p (elements v)) \<and>
     (\<forall>q<Size v. \<exists>v3.
        Erase E q v = Return q v3 \<and> valid v3 \<and>
        elements v3 = take q (elements v) @ drop (Suc q) (elements v))"
    by blast
qed

lemma Insert_Erase_nothrow_example:
  "valid (mk_vector [1, 2, 3 :: int] 1) \<and> nothrow_on int_env (99 # elements (mk_vector [1, 2, 3 :: int] 1)) \<and>
   \<not> alloc_fails int_env (grown (Size (mk_vector [1, 2, 3 :: int] 1))) \<and>
   (1 :: nat) \<le> Size (mk_vector [1, 2, 3 :: int] 1) \<and>
   Insert int_env 1 99 (mk_vector [1, 2, 3] 1) = Return 1 (mk_vector [1, 99, 2, 3] 0) \<and>
   elements (mk_vector [1, 99, 2, 3 :: int] 0) = [1, 99, 2, 3] \<and>
   Erase int_env 1 (mk_vector [1, 99, 2, 3] 0) = Return 1 (mk_vector [1, 2, 3] 1) \<and>
   (0 :: nat) < Size (mk_vector [1, 2, 3 :: int] 1) \<and>
   Erase int_env 0 (mk_vector [1, 2, 3] 1) = Return 0 (mk_vector [2, 3] 2) \<and>
   elements (mk_vector [2, 3 :: int] 2) = [2, 3]"
proof -
  have h: "valid (mk_vector [1, 2, 3 :: int] 1) \<and> nothrow_on int_env (99 # elements (mk_vector [1, 2, 3 :: int] 1)) \<and>
      \<not> alloc_fails int_env (grown (Size (mk_vector [1, 2, 3 :: int] 1)))"
    by (simp add: int_env_def nothrow_on_def grown_def alloc_fails_def Allocate_def size_t_mult_mod)
  have p: "(1 :: nat) \<le> Size (mk_vector [1, 2, 3 :: int] 1)" "(0 :: nat) < Size (mk_vector [1, 2, 3 :: int] 1)"
    by simp_all
  have e1: "Insert int_env 1 99 (mk_vector [1, 2, 3] 1) = Return 1 (mk_vector [1, 99, 2, 3] 0)"
    by code_simp
  have e2: "Erase int_env 1 (mk_vector [1, 99, 2, 3] 0) = Return 1 (mk_vector [1, 2, 3] 1)"
    by code_simp
  have e3: "Erase int_env 0 (mk_vector [1, 2, 3] 1) = Return 0 (mk_vector [2, 3] 2)"
    by code_simp
  from Insert_Erase_nothrow [of "mk_vector [1, 2, 3] 1" int_env 99] h p(1) e1
  have "elements (mk_vector [1, 99, 2, 3 :: int] 0) = take 1 (elements (mk_vector [1, 2, 3 :: int] 1)) @
          99 # drop 1 (elements (mk_vector [1, 2, 3 :: int] 1))"
    by fastforce
  then have l1: "elements (mk_vector [1, 99, 2, 3 :: int] 0) = [1, 99, 2, 3]" by simp
  from Insert_Erase_nothrow [of "mk_vector [1, 2, 3] 1" int_env 99] h p(2) e3
  have "elements (mk_vector [2, 3 :: int] 2) = take 0 (elements (mk_vector [1, 2, 3 :: int] 1)) @
          drop (Suc 0) (elements (mk_vector [1, 2, 3 :: int] 1))"
    by fastforce
  then have l2: "elements (mk_vector [2, 3 :: int] 2) = [2, 3]" by simp
  from h p e1 e2 e3 l1 l2 show ?thesis by blast
qed

text \<open>
  Claim C6 (\<open>Insert\<close> at \<open>p\<close> puts the value at index \<open>p\<close> and keeps the other elements in
  their order; \<open>Erase\<close> at \<open>p\<close> right after it restores the sequence). The element type is the
  probe whose copy constructor throws on the value \<open>2\<close>; the vector holds \<open>[1, 2]\<close> and is
  full; \<open>9\<close> is inserted at index \<open>0\<close>. \<open>Insert\<close> goes through \<open>Emplace\<close> on the growth path:
  copying the suffix throws at its second element, and the handler of the second \<^verbatim>\<open>try\<close>
  does not rethrow. The call returns the position \<open>0\<close> normally, with size \<open>3\<close> and no live
  object in the block: index \<open>0\<close> does not hold \<open>9\<close>, the elements \<open>1\<close> and \<open>2\<close> are gone, and
  \<open>Erase\<close> at \<open>0\<close> then move-assigns from raw memory instead of restoring \<open>[1, 2]\<close>.
\<close>

theorem Insert_growth_suffix_failure:
  "Insert (probe_env 2) 0 9 (mk_vector [1, 2] 0) =
     Return 0 \<lparr>vec_data = \<lparr>rm_buffer = [Raw, Raw, Raw, Raw], rm_capacity = 4\<rparr>, vec_size = 3\<rparr> \<and>
   at \<lparr>vec_data = \<lparr>rm_buffer = [Raw, Raw, Raw, Raw :: int slot], rm_capacity = 4\<rparr>, vec_size = 3\<rparr> 0 = None \<and>
   Erase (probe_env 2) 0 \<lparr>vec_data = \<lparr>rm_buffer = [Raw, Raw, Raw, Raw], rm_capacity = 4\<rparr>, vec_size = 3\<rparr> =
     Undefined"
  by code_simp

section \<open>Copy assignment\<close>

text \<open>
  Claim C7. \<open>a = b\<close> for two distinct well-formed vectors at the addresses \<open>this\<close> and
  \<open>other\<close>. When the assignment returns, it returns \<open>*this\<close>, \<open>b\<close> is untouched, and \<open>a\<close> is
  well-formed with the elements and the size of \<open>b\<close>; its capacity is \<open>b.Size()\<close> when that
  exceeded the capacity of \<open>a\<close> (the temporary copy is swapped in) and the old capacity
  otherwise (no reallocation). On the growing path an exception leaves the store as it was
  (strong guarantee), and the assignment returns when the allocation does not fail
  (\<open>operator new\<close> does not throw and the byte count fits \<open>size_t\<close>) and no copy construction
  of an element of \<open>b\<close> throws. On the other path no allocation is made:
  the assignment returns when copy-assigning the first \<open>min(a.Size(), b.Size())\<close> elements
  of \<open>b\<close> and copy-constructing the elements of \<open>b\<close> from index \<open>a.Size()\<close> on do not throw,
  and it throws when copy-assigning one of the former does.
\<close>

theorem copy_assignment_spec:
  "this \<noteq> other \<and> \<sigma> this = Some a \<and> \<sigma> other = Some b \<and> valid a \<and> valid b \<longrightarrow>
     (\<forall>r \<sigma>'. operator_assign_copy E this other \<sigma> = Return r \<sigma>' \<longrightarrow>
        r = this \<and> \<sigma>' other = Some b \<and>
        (\<exists>a'. \<sigma>' = \<sigma>(this \<mapsto> a') \<and> valid a' \<and> elements a' = elements b \<and> Size a' = Size b \<and>
              Capacity a' = (if Capacity a < Size b then Size b else Capacity a))) \<and>
     (Capacity a < Size b \<longrightarrow>
        (\<forall>e \<sigma>'. operator_assign_copy E this other \<sigma> = Throw e \<sigma>' \<longrightarrow> \<sigma>' = \<sigma>) \<and>
        (\<not> alloc_fails E (Size b) \<and> list_all (\<lambda>y. \<not> copy_throws E y) (elements b) \<longrightarrow>
           (\<exists>\<sigma>'. operator_assign_copy E this other \<sigma> = Return this \<sigma>'))) \<and>
     (Size b \<le> Capacity a \<longrightarrow>
        (list_all (\<lambda>y. \<not> copy_assign_throws E y) (take (min (Size a) (Size b)) (elements b)) \<and>
         list_all (\<lambda>y. \<not> copy_throws E y) (drop (Size a) (elements b)) \<longrightarrow>
           (\<exists>\<sigma>'. operator_assign_copy E this other \<sigma> = Return this \<sigma>')) \<and>
        (\<not> list_all (\<lambda>y. \<not> copy_assign_throws E y) (take (min (Size a) (Size b)) (elements b)) \<longrightarrow>
           (\<exists>e \<sigma>'. operator_assign_copy E this other \<sigma> = Throw e \<sigma>')))"
proof (intro impI)
  assume h: "this \<noteq> other \<and> \<sigma> this = Some a \<and> \<sigma> other = Some b \<and> valid a \<and> valid b"
  define xs where "xs = elements a"
  define k where "k = Capacity a - Size a"
  define ys where "ys = elements b"
  define j where "j = Capacity b - Size b"
  from h have a: "a = mk_vector xs k" and b: "b = mk_vector ys j"
    unfolding xs_def k_def ys_def j_def using valid_is_mk_vector by blast+
  have op: "operator_assign_copy E this other \<sigma> =
              (case copy_assign E a b of
                 Return u a' \<Rightarrow> Return this (\<sigma>(this \<mapsto> a'))
               | Throw e a' \<Rightarrow> Throw e (\<sigma>(this \<mapsto> a'))
               | Undefined \<Rightarrow> Undefined)"
    using h by (simp add: operator_assign_copy_def)
  have triv: "\<sigma>(this \<mapsto> a) = \<sigma>"
    using h by (simp add: fun_upd_idem)
  have P1: "\<forall>r \<sigma>'. operator_assign_copy E this other \<sigma> = Return r \<sigma>' \<longrightarrow>
        r = this \<and> \<sigma>' other = Some b \<and>
        (\<exists>a'. \<sigma>' = \<sigma>(this \<mapsto> a') \<and> valid a' \<and> elements a' = elements b \<and> Size a' = Size b \<and>
              Capacity a' = (if Capacity a < Size b then Size b else Capacity a))"
  proof (intro allI impI)
    fix r \<sigma>' assume r: "operator_assign_copy E this other \<sigma> = Return r \<sigma>'"
    then obtain u a' where c: "copy_assign E a b = Return u a'" and r': "r = this" "\<sigma>' = \<sigma>(this \<mapsto> a')"
      unfolding op by (auto split: outcome.splits)
    from copy_assign_Return_mk[OF c[unfolded a b]]
    have a': "a' = mk_vector ys (if length xs + k < length ys then 0 else length xs + k - length ys)" .
    have "valid a'" "elements a' = elements b" "Size a' = Size b"
      by (simp_all add: a' b)
    moreover have "Capacity a' = (if Capacity a < Size b then Size b else Capacity a)"
      by (simp add: a' a b)
    moreover have "\<sigma>' other = Some b" using h r' by simp
    ultimately show "r = this \<and> \<sigma>' other = Some b \<and>
        (\<exists>a'. \<sigma>' = \<sigma>(this \<mapsto> a') \<and> valid a' \<and> elements a' = elements b \<and> Size a' = Size b \<and>
              Capacity a' = (if Capacity a < Size b then Size b else Capacity a))"
      using r' by blast
  qed
  have P2: "(\<forall>e \<sigma>'. operator_assign_copy E this other \<sigma> = Throw e \<sigma>' \<longrightarrow> \<sigma>' = \<sigma>) \<and>
        (\<not> alloc_fails E (Size b) \<and> list_all (\<lambda>y. \<not> copy_throws E y) (elements b) \<longrightarrow>
           (\<exists>\<sigma>'. operator_assign_copy E this other \<sigma> = Return this \<sigma>'))"
    if g: "Capacity a < Size b"
  proof (intro conjI allI impI)
    from g have lt: "length xs + k < length ys" by (simp add: a b)
    {
      fix e \<sigma>' assume "operator_assign_copy E this other \<sigma> = Throw e \<sigma>'"
      then obtain a' where c: "copy_assign E a b = Throw e a'" and s: "\<sigma>' = \<sigma>(this \<mapsto> a')"
        unfolding op by (auto split: outcome.splits)
      from copy_assign_grow_Throw[OF lt c[unfolded a b]] have "a' = a" by (simp add: a)
      with s triv show "\<sigma>' = \<sigma>" by simp
    }
    {
      assume n: "\<not> alloc_fails E (Size b) \<and> list_all (\<lambda>y. \<not> copy_throws E y) (elements b)"
      then have "\<not> alloc_fails E (length ys)" "\<forall>y\<in>set ys. \<not> copy_throws E y"
        by (simp_all add: b list_all_iff)
      from copy_assign_grow_Return[OF lt this, of j]
      show "\<exists>\<sigma>'. operator_assign_copy E this other \<sigma> = Return this \<sigma>'"
        unfolding op by (simp add: a b)
    }
  qed
  have P3: "(list_all (\<lambda>y. \<not> copy_assign_throws E y) (take (min (Size a) (Size b)) (elements b)) \<and>
         list_all (\<lambda>y. \<not> copy_throws E y) (drop (Size a) (elements b)) \<longrightarrow>
           (\<exists>\<sigma>'. operator_assign_copy E this other \<sigma> = Return this \<sigma>')) \<and>
        (\<not> list_all (\<lambda>y. \<not> copy_assign_throws E y) (take (min (Size a) (Size b)) (elements b)) \<longrightarrow>
           (\<exists>e \<sigma>'. operator_assign_copy E this other \<sigma> = Throw e \<sigma>'))"
    if g: "Size b \<le> Capacity a"
  proof (intro conjI impI)
    from g have le: "length ys \<le> length xs + k" by (simp add: a b)
    {
      assume n: "list_all (\<lambda>y. \<not> copy_assign_throws E y) (take (min (Size a) (Size b)) (elements b)) \<and>
         list_all (\<lambda>y. \<not> copy_throws E y) (drop (Size a) (elements b))"
      then have "\<forall>y\<in>set (take (min (length ys) (length xs)) ys). \<not> copy_assign_throws E y"
        "\<forall>y\<in>set (drop (length xs) ys). \<not> copy_throws E y"
        by (simp_all add: a b list_all_iff min.commute)
      from copy_assign_inplace_Return[OF le this, of j]
      show "\<exists>\<sigma>'. operator_assign_copy E this other \<sigma> = Return this \<sigma>'"
        unfolding op by (simp add: a b)
    }
    {
      assume n: "\<not> list_all (\<lambda>y. \<not> copy_assign_throws E y) (take (min (Size a) (Size b)) (elements b))"
      then have "(\<exists>y\<in>set (take (min (length ys) (length xs)) ys). copy_assign_throws E y) \<or>
        (\<exists>y\<in>set (drop (length xs) ys). copy_throws E y)"
        by (simp add: a b list_all_iff min.commute)
      from copy_assign_inplace_Throw[OF le this, of j]
      show "\<exists>e \<sigma>'. operator_assign_copy E this other \<sigma> = Throw e \<sigma>'"
        unfolding op by (auto simp: a b)
    }
  qed
  from P1 P2 P3 show "(\<forall>r \<sigma>'. operator_assign_copy E this other \<sigma> = Return r \<sigma>' \<longrightarrow>
        r = this \<and> \<sigma>' other = Some b \<and>
        (\<exists>a'. \<sigma>' = \<sigma>(this \<mapsto> a') \<and> valid a' \<and> elements a' = elements b \<and> Size a' = Size b \<and>
              Capacity a' = (if Capacity a < Size b then Size b else Capacity a))) \<and>
     (Capacity a < Size b \<longrightarrow>
        (\<forall>e \<sigma>'. operator_assign_copy E this other \<sigma> = Throw e \<sigma>' \<longrightarrow> \<sigma>' = \<sigma>) \<and>
        (\<not> alloc_fails E (Size b) \<and> list_all (\<lambda>y. \<not> copy_throws E y) (elements b) \<longrightarrow>
           (\<exists>\<sigma>'. operator_assign_copy E this other \<sigma> = Return this \<sigma>'))) \<and>
     (Size b \<le> Capacity a \<longrightarrow>
        (list_all (\<lambda>y. \<not> copy_assign_throws E y) (take (min (Size a) (Size b)) (elements b)) \<and>
         list_all (\<lambda>y. \<not> copy_throws E y) (drop (Size a) (elements b)) \<longrightarrow>
           (\<exists>\<sigma>'. operator_assign_copy E this other \<sigma> = Return this \<sigma>')) \<and>
        (\<not> list_all (\<lambda>y. \<not> copy_assign_throws E y) (take (min (Size a) (Size b)) (elements b)) \<longrightarrow>
           (\<exists>e \<sigma>'. operator_assign_copy E this other \<sigma> = Throw e \<sigma>')))"
    by blast
qed


theorem copy_assignment_spec_witness:
  "(0 :: nat) \<noteq> 1 \<and>
   [(0 :: nat) \<mapsto> mk_vector [1 :: int] 0, 1 \<mapsto> mk_vector [2, 3] 0] 0 = Some (mk_vector [1] 0) \<and>
   [(0 :: nat) \<mapsto> mk_vector [1 :: int] 0, 1 \<mapsto> mk_vector [2, 3] 0] 1 = Some (mk_vector [2, 3] 0) \<and>
   valid (mk_vector [1 :: int] 0) \<and> valid (mk_vector [2, 3 :: int] 0) \<and>
   Capacity (mk_vector [1 :: int] 0) < Size (mk_vector [2, 3 :: int] 0) \<and>
   \<not> alloc_fails int_env (Size (mk_vector [2, 3 :: int] 0)) \<and>
   list_all (\<lambda>y. \<not> copy_throws int_env y) (elements (mk_vector [2, 3 :: int] 0)) \<and>
   operator_assign_copy int_env 0 1 [(0 :: nat) \<mapsto> mk_vector [1] 0, 1 \<mapsto> mk_vector [2, 3] 0] =
     Return 0 [(0 :: nat) \<mapsto> mk_vector [2, 3] 0, 1 \<mapsto> mk_vector [2, 3] 0] \<and>
   [(0 :: nat) \<mapsto> mk_vector [1, 4, 5 :: int] 1, 1 \<mapsto> mk_vector [2, 3] 0] 0 = Some (mk_vector [1, 4, 5] 1) \<and>
   valid (mk_vector [1, 4, 5 :: int] 1) \<and>
   Size (mk_vector [2, 3 :: int] 0) \<le> Capacity (mk_vector [1, 4, 5 :: int] 1) \<and>
   list_all (\<lambda>y. \<not> copy_assign_throws int_env y)
     (take (min (Size (mk_vector [1, 4, 5 :: int] 1)) (Size (mk_vector [2, 3 :: int] 0))) (elements (mk_vector [2, 3 :: int] 0))) \<and>
   list_all (\<lambda>y. \<not> copy_throws int_env y)
     (drop (Size (mk_vector [1, 4, 5 :: int] 1)) (elements (mk_vector [2, 3 :: int] 0))) \<and>
   operator_assign_copy int_env 0 1 [(0 :: nat) \<mapsto> mk_vector [1, 4, 5] 1, 1 \<mapsto> mk_vector [2, 3] 0] =
     Return 0 [(0 :: nat) \<mapsto> mk_vector [2, 3] 2, 1 \<mapsto> mk_vector [2, 3] 0]"
proof -
  let ?s1 = "[(0 :: nat) \<mapsto> mk_vector [1 :: int] 0, 1 \<mapsto> mk_vector [2, 3] 0]"
  let ?s2 = "[(0 :: nat) \<mapsto> mk_vector [1, 4, 5 :: int] 1, 1 \<mapsto> mk_vector [2, 3] 0]"
  have h1: "(0 :: nat) \<noteq> 1 \<and> ?s1 0 = Some (mk_vector [1] 0) \<and> ?s1 1 = Some (mk_vector [2, 3] 0) \<and>
      valid (mk_vector [1 :: int] 0) \<and> valid (mk_vector [2, 3 :: int] 0)"
    by simp
  have h2: "(0 :: nat) \<noteq> 1 \<and> ?s2 0 = Some (mk_vector [1, 4, 5] 1) \<and> ?s2 1 = Some (mk_vector [2, 3] 0) \<and>
      valid (mk_vector [1, 4, 5 :: int] 1) \<and> valid (mk_vector [2, 3 :: int] 0)"
    by simp
  have g1: "Capacity (mk_vector [1 :: int] 0) < Size (mk_vector [2, 3 :: int] 0) \<and>
      \<not> alloc_fails int_env (Size (mk_vector [2, 3 :: int] 0)) \<and>
      list_all (\<lambda>y. \<not> copy_throws int_env y) (elements (mk_vector [2, 3 :: int] 0))"
    by (simp add: int_env_alloc) (simp add: int_env_def)
  have g2: "Size (mk_vector [2, 3 :: int] 0) \<le> Capacity (mk_vector [1, 4, 5 :: int] 1) \<and>
      list_all (\<lambda>y. \<not> copy_assign_throws int_env y)
        (take (min (Size (mk_vector [1, 4, 5 :: int] 1)) (Size (mk_vector [2, 3 :: int] 0))) (elements (mk_vector [2, 3 :: int] 0))) \<and>
      list_all (\<lambda>y. \<not> copy_throws int_env y)
        (drop (Size (mk_vector [1, 4, 5 :: int] 1)) (elements (mk_vector [2, 3 :: int] 0)))"
    by (simp add: int_env_def)
  have c1: "copy_assign int_env (mk_vector [1] 0) (mk_vector [2, 3] 0) = Return () (mk_vector [2, 3] 0)"
    by code_simp
  have c2: "copy_assign int_env (mk_vector [1, 4, 5] 1) (mk_vector [2, 3] 0) = Return () (mk_vector [2, 3] 2)"
    by code_simp
  have e1: "operator_assign_copy int_env 0 1 ?s1 = Return 0 [(0 :: nat) \<mapsto> mk_vector [2, 3] 0, 1 \<mapsto> mk_vector [2, 3] 0]"
    using c1 by (simp add: operator_assign_copy_def fun_upd_twist)
  have e2: "operator_assign_copy int_env 0 1 ?s2 = Return 0 [(0 :: nat) \<mapsto> mk_vector [2, 3] 2, 1 \<mapsto> mk_vector [2, 3] 0]"
    using c2 by (simp add: operator_assign_copy_def fun_upd_twist)
  from copy_assignment_spec [of 0 1 ?s1 "mk_vector [1] 0" "mk_vector [2, 3] 0" int_env] h1 g1
  have "\<exists>\<sigma>'. operator_assign_copy int_env 0 1 ?s1 = Return 0 \<sigma>'"
    by blast
  moreover
  from copy_assignment_spec [of 0 1 ?s2 "mk_vector [1, 4, 5] 1" "mk_vector [2, 3] 0" int_env] h2 g2
  have "\<exists>\<sigma>'. operator_assign_copy int_env 0 1 ?s2 = Return 0 \<sigma>'"
    by blast
  ultimately show ?thesis
    using h1 h2 g1 g2 e1 e2 by simp
qed

section \<open>Move assignment\<close>

text \<open>
  Claim C2, as stated, fails: after \<open>a = std::move(b)\<close> with \<open>a\<close> holding \<open>[1]\<close> and \<open>b\<close> holding
  \<open>[2, 3]\<close>, \<open>a\<close> holds \<open>[2, 3]\<close>, but \<open>b\<close> has taken the block of \<open>a\<close>: its capacity is \<open>1\<close>, not
  \<open>0\<close>, and the old element of \<open>a\<close> is still a live object in it.
\<close>

theorem move_assign_source_keeps_storage:
  "move_assign (mk_vector [1] 0) (mk_vector [2, 3] 0) =
     (mk_vector [2, 3 :: int] 0, \<lparr>vec_data = \<lparr>rm_buffer = [Live 1], rm_capacity = 1\<rparr>, vec_size = 0\<rparr>) \<and>
   Capacity (snd (move_assign (mk_vector [1 :: int] 0) (mk_vector [2, 3] 0))) \<noteq> 0"
  by code_simp

text \<open>
  Claim C2, amended. For two distinct vectors at the addresses \<open>this\<close> and \<open>other\<close>, the move
  assignment returns \<open>*this\<close> (it never throws); \<open>a\<close> becomes what \<open>b\<close> was (same size, capacity
  and elements); \<open>b\<close> is left with size \<open>0\<close> and the capacity \<open>a\<close> had before, since
  \<open>RawMemory::operator=(RawMemory&&)\<close> swaps the two blocks.
\<close>

theorem move_assignment_spec:
  "this \<noteq> other \<and> \<sigma> this = Some a \<and> \<sigma> other = Some b \<longrightarrow>
     (\<exists>a' b'. operator_assign_move this other \<sigma> = Return this (\<sigma>(this \<mapsto> a', other \<mapsto> b')) \<and>
        a' = b \<and> Size b' = 0 \<and> Capacity b' = Capacity a)"
proof (intro impI)
  assume h: "this \<noteq> other \<and> \<sigma> this = Some a \<and> \<sigma> other = Some b"
  let ?b' = "\<lparr>vec_data = vec_data a, vec_size = 0\<rparr>"
  have "operator_assign_move this other \<sigma> = Return this (\<sigma>(this \<mapsto> b, other \<mapsto> ?b'))"
    using h
    by (simp add: operator_assign_move_def move_assign_def RawMemory_move_assign_def RawMemory_Swap_def
        RawMemory_eta Vector_eta)
  moreover have "Size ?b' = 0 \<and> Capacity ?b' = Capacity a"
    by (simp add: Size_def Capacity_def)
  ultimately show "\<exists>a' b'. operator_assign_move this other \<sigma> = Return this (\<sigma>(this \<mapsto> a', other \<mapsto> b')) \<and>
        a' = b \<and> Size b' = 0 \<and> Capacity b' = Capacity a"
    by blast
qed

theorem move_assignment_spec_witness:
  "(0 :: nat) \<noteq> 1 \<and>
   [(0 :: nat) \<mapsto> mk_vector [1 :: int] 0, 1 \<mapsto> mk_vector [2, 3] 0] 0 = Some (mk_vector [1] 0) \<and>
   [(0 :: nat) \<mapsto> mk_vector [1 :: int] 0, 1 \<mapsto> mk_vector [2, 3] 0] 1 = Some (mk_vector [2, 3] 0) \<and>
   (\<exists>b'. operator_assign_move 0 1 [(0 :: nat) \<mapsto> mk_vector [1 :: int] 0, 1 \<mapsto> mk_vector [2, 3] 0] =
            Return 0 [(0 :: nat) \<mapsto> mk_vector [2, 3] 0, 1 \<mapsto> b'] \<and>
          Size b' = 0 \<and> Capacity b' = 1)"
proof -
  let ?s = "[(0 :: nat) \<mapsto> mk_vector [1 :: int] 0, 1 \<mapsto> mk_vector [2, 3] 0]"
  have h: "(0 :: nat) \<noteq> 1 \<and> ?s 0 = Some (mk_vector [1] 0) \<and> ?s 1 = Some (mk_vector [2, 3] 0)"
    by simp
  from move_assignment_spec [of 0 1 ?s "mk_vector [1] 0" "mk_vector [2, 3] 0"] h
  obtain a' b' where "operator_assign_move 0 1 ?s = Return 0 (?s(0 \<mapsto> a', 1 \<mapsto> b'))"
    "a' = mk_vector [2, 3] 0" "Size b' = 0" "Capacity b' = Capacity (mk_vector [1 :: int] 0)"
    by blast
  then have "operator_assign_move 0 1 ?s = Return 0 [(0 :: nat) \<mapsto> mk_vector [2, 3] 0, 1 \<mapsto> b'] \<and>
          Size b' = 0 \<and> Capacity b' = 1"
    by (simp add: fun_upd_twist)
  with h show ?thesis by blast
qed

section \<open>The class invariant\<close>

text \<open>
  Claim C9 (every public operation preserves the invariant) fails on two operations.
  Move-assigning an empty vector to a vector that holds \<open>[7]\<close> leaves the source with
  size \<open>0\<close> and a block whose slot \<open>0\<close>, outside \<open>[0, size)\<close>, still holds the object \<open>7\<close>. And
  \<open>Emplace\<close> at index \<open>1\<close> of a full vector \<open>[1, 2, 3]\<close>, when copying the element \<open>3\<close> throws,
  returns with size \<open>4\<close> and no object in the slots \<open>[0, 4)\<close>.
\<close>

theorem invariant_broken:
  "valid (mk_vector [7 :: int] 0) \<and> valid (mk_vector ([] :: int list) 0) \<and>
   move_assign (mk_vector [7 :: int] 0) (mk_vector [] 0) =
     (mk_vector [] 0, \<lparr>vec_data = \<lparr>rm_buffer = [Live 7], rm_capacity = 1\<rparr>, vec_size = 0\<rparr>) \<and>
   \<not> valid \<lparr>vec_data = \<lparr>rm_buffer = [Live (7 :: int)], rm_capacity = 1\<rparr>, vec_size = 0\<rparr> \<and>
   valid (mk_vector [1, 2, 3 :: int] 0) \<and>
   Emplace (probe_env 3) 1 (Some 9) (mk_vector [1, 2, 3] 0) =
     Return 1 \<lparr>vec_data = \<lparr>rm_buffer = [Raw, Raw, Raw, Raw, Raw, Raw], rm_capacity = 6\<rparr>, vec_size = 4\<rparr> \<and>
   \<not> valid \<lparr>vec_data = \<lparr>rm_buffer = [Raw, Raw, Raw, Raw, Raw, Raw :: int slot], rm_capacity = 6\<rparr>, vec_size = 4\<rparr>"
  by code_simp

end
